theory Spec2Isabelle
  imports Complex_Main "HOL-Library.AList"
begin

section \<open>Mini library: the embedding of \<open>library_manager.py\<close>\<close>

text \<open>
  The module \<open>library_manager.py\<close> is a single class \<open>LibraryManager\<close> over three dataclasses.
  It is embedded as follows.
  \<^item> An exception is a value of \<open>error\<close>; only its class is kept, not its message. Besides the
    four classes the module declares, two built-in ones can leave its methods:
    \<open>OverflowError\<close> (from \<open>timedelta(days=...)\<close> and from \<open>date + timedelta\<close>) and
    \<open>KeyError\<close> (from \<open>self.books[loan.book_id]\<close> in \<open>return_book\<close>).
  \<^item> A method takes the manager and returns the pair of its outcome (\<open>Inl\<close> the exception raised,
    \<open>Inr\<close> the value returned) and the manager as the call leaves it, so a mutation made before
    a \<open>raise\<close> is visible in the model.
  \<^item> \<open>Book\<close> and \<open>Loan\<close> objects are mutated in place and a \<open>Loan\<close> is held by two
    containers at once, so both live in an object store: a list indexed by address, where an
    allocation appends. The dictionaries and the history hold addresses, and a method that
    returns an object returns its address.
  \<^item> A \<open>dict\<close> is an association list in insertion order: \<open>d[k] = v\<close> is \<open>AList.update\<close>
    (in place when the key is present, at the end otherwise), \<open>del d[k]\<close> is \<open>AList.delete\<close>,
    \<open>d.values()\<close> is \<open>map snd\<close>.
  \<^item> A \<open>str\<close> is the list of its code points. A literal of the source is written
    \<open>lit ''...''\<close>.
  \<^item> A \<open>date\<close> is its proleptic Gregorian ordinal (\<open>date.toordinal()\<close>), an \<open>int\<close> between
    1 and \<open>MAXORDINAL\<close>.
  \<^item> What the module takes from the Python runtime is a parameter of the methods that use
    it, a record \<open>builtins\<close>: the three float operations, over a type parameter \<open>'f\<close> of
    floats, and the three tables of the Unicode database that \<open>str.lower\<close> reads. The
    instance \<open>py\<close> gives the float operations of IEEE 754 binary64 and the tables on the
    blocks the examples use.
\<close>

subsection \<open>Exceptions\<close>

datatype error =
    ValidationError
  | NotFoundError
  | AlreadyExistsError
  | BusinessRuleError
  | OverflowError
  | KeyError


subsection \<open>Strings\<close>

type_synonym str = "nat list"

text \<open>The \<open>str\<close> of a literal whose characters are below 256.\<close>

definition lit :: "string \<Rightarrow> str" where
  "lit s = map of_char s"

text \<open>\<open>str.isspace\<close> on one character: the 29 code points for which it holds.\<close>

definition isspace :: "nat \<Rightarrow> bool" where
  "isspace c =
     (c \<in> set [0x09, 0x0A, 0x0B, 0x0C, 0x0D, 0x1C, 0x1D, 0x1E, 0x1F, 0x20, 0x85, 0xA0,
               0x1680, 0x2000, 0x2001, 0x2002, 0x2003, 0x2004, 0x2005, 0x2006, 0x2007,
               0x2008, 0x2009, 0x200A, 0x2028, 0x2029, 0x202F, 0x205F, 0x3000])"

text \<open>\<open>value.strip()\<close>: leading and trailing whitespace removed.\<close>

definition strip :: "str \<Rightarrow> str" where
  "strip s = rev (dropWhile isspace (rev (dropWhile isspace s)))"

text \<open>\<open>s.startswith(p)\<close> and the substring test \<open>sub in s\<close>.\<close>

fun startswith :: "str \<Rightarrow> str \<Rightarrow> bool" where
  "startswith s [] = True"
| "startswith [] (p # ps) = False"
| "startswith (c # cs) (p # ps) = (c = p \<and> startswith cs ps)"

fun str_in :: "str \<Rightarrow> str \<Rightarrow> bool" where
  "str_in sub [] = (sub = [])"
| "str_in sub (c # cs) = (startswith (c # cs) sub \<or> str_in sub cs)"

subsection \<open>What the Python runtime provides\<close>

text \<open>
  The float operations the module uses: \<open>x < 0\<close>, the product \<open>n * x\<close> of an \<open>int\<close> and a
  float, and \<open>round(x, 2)\<close>. The tables \<open>str.lower\<close> reads: the full lower-case mapping of a
  code point (one code point or several) and the properties Cased and Case_Ignorable.
\<close>

record 'f builtins =
  flt_lt0 :: "'f \<Rightarrow> bool"
  flt_mul :: "int \<Rightarrow> 'f \<Rightarrow> 'f"
  flt_round2 :: "'f \<Rightarrow> 'f"
  to_lower_full :: "nat \<Rightarrow> nat list"
  is_cased :: "nat \<Rightarrow> bool"
  is_case_ignorable :: "nat \<Rightarrow> bool"

text \<open>
  \<open>str.lower\<close>. Every character is replaced by its full lower-case mapping, but for the capital
  sigma U+03A3: it becomes the final small sigma U+03C2 when a cased character comes before
  it, case-ignorable characters skipped, and none comes after it, case-ignorable characters
  skipped; otherwise the small sigma U+03C3. \<open>passed\<close> holds the characters before it.
\<close>

definition final_sigma :: "'f builtins \<Rightarrow> str \<Rightarrow> str \<Rightarrow> bool" where
  "final_sigma F passed rest =
     ((case dropWhile (is_case_ignorable F) (rev passed) of
         [] \<Rightarrow> False | c # _ \<Rightarrow> is_cased F c) \<and>
      (case dropWhile (is_case_ignorable F) rest of
         [] \<Rightarrow> True | c # _ \<Rightarrow> \<not> is_cased F c))"

fun lower_from :: "'f builtins \<Rightarrow> str \<Rightarrow> str \<Rightarrow> str" where
  "lower_from F passed [] = []"
| "lower_from F passed (c # cs) =
     (if c = 0x3A3 then [if final_sigma F passed cs then 0x3C2 else 0x3C3]
      else to_lower_full F c)
     @ lower_from F (passed @ [c]) cs"

definition lower :: "'f builtins \<Rightarrow> str \<Rightarrow> str" where
  "lower F s = lower_from F [] s"

subsection \<open>Dates\<close>

type_synonym date = int

definition MAXORDINAL :: int where
  "MAXORDINAL = 3652059"

definition valid_date :: "date \<Rightarrow> bool" where
  "valid_date d = (1 \<le> d \<and> d \<le> MAXORDINAL)"

text \<open>\<open>timedelta(days=n)\<close> raises \<open>OverflowError\<close> beyond 999999999 days in magnitude.\<close>

definition timedelta :: "int \<Rightarrow> error + int" where
  "timedelta days = (if \<bar>days\<bar> > 999999999 then Inl OverflowError else Inr days)"

text \<open>\<open>date + timedelta\<close> raises \<open>OverflowError\<close> when the sum is not a date.\<close>

definition date_add :: "date \<Rightarrow> int \<Rightarrow> error + date" where
  "date_add d td =
     (let ord = d + td
      in if 0 < ord \<and> ord \<le> MAXORDINAL then Inr ord else Inl OverflowError)"

text \<open>\<open>(a - b).days\<close>.\<close>

definition days_between :: "date \<Rightarrow> date \<Rightarrow> int" where
  "days_between a b = a - b"

subsection \<open>The dataclasses and the manager\<close>

record Book =
  book_id :: str
  title :: str
  author :: str
  total_copies :: int
  available_copies :: int

record Reader =
  reader_id :: str
  full_name :: str

record Loan =
  book_id :: str
  reader_id :: str
  borrow_date :: date
  due_date :: date
  returned_date :: "date option"

definition is_active :: "Loan \<Rightarrow> bool" where
  "is_active loan = (returned_date loan = None)"

text \<open>
  \<open>books\<close>, \<open>readers\<close>, \<open>active_loans\<close> and \<open>loan_history\<close> are the attributes \<open>books\<close>,
  \<open>readers\<close>, \<open>_active_loans\<close> and \<open>_loan_history\<close>; \<open>book_objects\<close> and \<open>loan_objects\<close> are
  the object stores.
\<close>

record 'f LibraryManager =
  fine_per_day :: 'f
  books :: "(str \<times> nat) list"
  readers :: "(str \<times> Reader) list"
  active_loans :: "((str \<times> str) \<times> nat) list"
  loan_history :: "nat list"
  book_objects :: "Book list"
  loan_objects :: "Loan list"

record 'f return_result =
  overdue_days :: int
  fine_amount :: 'f

text \<open>\<open>LibraryManager.__init__\<close>; \<open>float(fine_per_day)\<close> of a float is that float.\<close>

definition init :: "'f builtins \<Rightarrow> 'f \<Rightarrow> error + 'f LibraryManager" where
  "init F fpd =
     (if flt_lt0 F fpd then Inl ValidationError
      else Inr \<lparr>fine_per_day = fpd, books = [], readers = [], active_loans = [],
                loan_history = [], book_objects = [], loan_objects = []\<rparr>)"

text \<open>The manager a successful construction leaves.\<close>

definition fresh :: "'f \<Rightarrow> 'f LibraryManager" where
  "fresh fpd = \<lparr>fine_per_day = fpd, books = [], readers = [], active_loans = [],
                loan_history = [], book_objects = [], loan_objects = []\<rparr>"

definition require_non_empty :: "str \<Rightarrow> error + str" where
  "require_non_empty v =
     (let normalized = strip v
      in if normalized = [] then Inl ValidationError else Inr normalized)"

definition add_book ::
  "str \<Rightarrow> str \<Rightarrow> str \<Rightarrow> int \<Rightarrow> 'f LibraryManager \<Rightarrow> (error + nat) \<times> 'f LibraryManager"
where
  "add_book bid ttl auth copies m =
     (case require_non_empty bid of Inl e \<Rightarrow> (Inl e, m) | Inr bid' \<Rightarrow>
     (case require_non_empty ttl of Inl e \<Rightarrow> (Inl e, m) | Inr ttl' \<Rightarrow>
     (case require_non_empty auth of Inl e \<Rightarrow> (Inl e, m) | Inr auth' \<Rightarrow>
      if copies \<le> 0 then (Inl ValidationError, m)
      else if map_of (books m) bid' \<noteq> None then (Inl AlreadyExistsError, m)
      else
        let book = \<lparr>Book.book_id = bid', title = ttl', author = auth',
                    total_copies = copies, available_copies = copies\<rparr>;
            a = length (book_objects m);
            m1 = m\<lparr>book_objects := book_objects m @ [book]\<rparr>;
            m2 = m1\<lparr>books := AList.update bid' a (books m1)\<rparr>
        in (Inr a, m2))))"

definition register_reader ::
  "str \<Rightarrow> str \<Rightarrow> 'f LibraryManager \<Rightarrow> (error + Reader) \<times> 'f LibraryManager"
where
  "register_reader rid name m =
     (case require_non_empty rid of Inl e \<Rightarrow> (Inl e, m) | Inr rid' \<Rightarrow>
     (case require_non_empty name of Inl e \<Rightarrow> (Inl e, m) | Inr name' \<Rightarrow>
      if map_of (readers m) rid' \<noteq> None then (Inl AlreadyExistsError, m)
      else
        let reader = \<lparr>Reader.reader_id = rid', full_name = name'\<rparr>;
            m1 = m\<lparr>readers := AList.update rid' reader (readers m)\<rparr>
        in (Inr reader, m1)))"

definition get_book :: "str \<Rightarrow> 'f LibraryManager \<Rightarrow> (error + nat) \<times> 'f LibraryManager" where
  "get_book bid m =
     (case require_non_empty bid of Inl e \<Rightarrow> (Inl e, m) | Inr bid' \<Rightarrow>
     (case map_of (books m) bid' of
        None \<Rightarrow> (Inl NotFoundError, m)
      | Some a \<Rightarrow> (Inr a, m)))"

definition get_reader ::
  "str \<Rightarrow> 'f LibraryManager \<Rightarrow> (error + Reader) \<times> 'f LibraryManager"
where
  "get_reader rid m =
     (case require_non_empty rid of Inl e \<Rightarrow> (Inl e, m) | Inr rid' \<Rightarrow>
     (case map_of (readers m) rid' of
        None \<Rightarrow> (Inl NotFoundError, m)
      | Some r \<Rightarrow> (Inr r, m)))"

definition search_books ::
  "'f builtins \<Rightarrow> str \<Rightarrow> 'f LibraryManager \<Rightarrow> (error + nat list) \<times> 'f LibraryManager"
where
  "search_books F query m =
     (case require_non_empty query of Inl e \<Rightarrow> (Inl e, m) | Inr q \<Rightarrow>
      let normalized_query = lower F q
      in (Inr (filter (\<lambda>a. str_in normalized_query (lower F (title (book_objects m ! a)))
                          \<or> str_in normalized_query (lower F (author (book_objects m ! a))))
                      (map snd (books m))), m))"

definition borrow_book ::
  "str \<Rightarrow> str \<Rightarrow> date \<Rightarrow> int \<Rightarrow> 'f LibraryManager \<Rightarrow> (error + nat) \<times> 'f LibraryManager"
where
  "borrow_book bid rid bdate loan_days m =
     (if loan_days \<le> 0 then (Inl ValidationError, m)
      else
       (case get_book bid m of (Inl e, m1) \<Rightarrow> (Inl e, m1) | (Inr book, m1) \<Rightarrow>
       (case get_reader rid m1 of (Inl e, m2) \<Rightarrow> (Inl e, m2) | (Inr _, m2) \<Rightarrow>
        if available_copies (book_objects m2 ! book) \<le> 0 then (Inl BusinessRuleError, m2)
        else
          let key = (Book.book_id (book_objects m2 ! book), rid)
          in if map_of (active_loans m2) key \<noteq> None then (Inl BusinessRuleError, m2)
             else
              (case timedelta loan_days of Inl e \<Rightarrow> (Inl e, m2) | Inr td \<Rightarrow>
              (case date_add bdate td of Inl e \<Rightarrow> (Inl e, m2) | Inr due \<Rightarrow>
               let loan = \<lparr>Loan.book_id = Book.book_id (book_objects m2 ! book),
                           Loan.reader_id = rid, borrow_date = bdate, due_date = due,
                           returned_date = None\<rparr>;
                   a = length (loan_objects m2);
                   m3 = m2\<lparr>loan_objects := loan_objects m2 @ [loan]\<rparr>;
                   m4 = m3\<lparr>active_loans := AList.update key a (active_loans m3)\<rparr>;
                   m5 = m4\<lparr>loan_history := loan_history m4 @ [a]\<rparr>;
                   m6 = m5\<lparr>book_objects := (book_objects m5)
                          [book := (book_objects m5 ! book)
                             \<lparr>available_copies := available_copies (book_objects m5 ! book) - 1\<rparr>]\<rparr>
               in (Inr a, m6))))))"

definition return_book ::
  "'f builtins \<Rightarrow> str \<Rightarrow> str \<Rightarrow> date \<Rightarrow> 'f LibraryManager
     \<Rightarrow> (error + 'f return_result) \<times> 'f LibraryManager"
where
  "return_book F bid rid rdate m =
     (case require_non_empty bid of Inl e \<Rightarrow> (Inl e, m) | Inr bid' \<Rightarrow>
     (case require_non_empty rid of Inl e \<Rightarrow> (Inl e, m) | Inr rid' \<Rightarrow>
      let key = (bid', rid')
      in (case map_of (active_loans m) key of
           None \<Rightarrow> (Inl BusinessRuleError, m)
         | Some loan \<Rightarrow>
             let m1 = m\<lparr>loan_objects := (loan_objects m)
                        [loan := (loan_objects m ! loan)\<lparr>returned_date := Some rdate\<rparr>]\<rparr>
             in (case map_of (books m1) (Loan.book_id (loan_objects m1 ! loan)) of
                  None \<Rightarrow> (Inl KeyError, m1)
                | Some book \<Rightarrow>
                    let m2 = m1\<lparr>book_objects := (book_objects m1)
                               [book := (book_objects m1 ! book)
                                  \<lparr>available_copies :=
                                     available_copies (book_objects m1 ! book) + 1\<rparr>]\<rparr>;
                        m3 = m2\<lparr>active_loans := AList.delete key (active_loans m2)\<rparr>;
                        overdue = max (days_between rdate (due_date (loan_objects m3 ! loan))) 0;
                        fine = flt_round2 F (flt_mul F overdue (fine_per_day m3))
                    in (Inr \<lparr>overdue_days = overdue, fine_amount = fine\<rparr>, m3)))))"

definition calculate_fine ::
  "'f builtins \<Rightarrow> date \<Rightarrow> date \<Rightarrow> 'f LibraryManager \<Rightarrow> (error + 'f) \<times> 'f LibraryManager"
where
  "calculate_fine F due rdate m =
     (let overdue = max (days_between rdate due) 0
      in (Inr (flt_round2 F (flt_mul F overdue (fine_per_day m))), m))"

definition get_active_loans ::
  "'f LibraryManager \<Rightarrow> (error + nat list) \<times> 'f LibraryManager"
where
  "get_active_loans m = (Inr (map snd (active_loans m)), m)"

definition get_reader_active_loans ::
  "str \<Rightarrow> 'f LibraryManager \<Rightarrow> (error + nat list) \<times> 'f LibraryManager"
where
  "get_reader_active_loans rid m =
     (case require_non_empty rid of Inl e \<Rightarrow> (Inl e, m) | Inr rid' \<Rightarrow>
     (case get_reader rid' m of (Inl e, m1) \<Rightarrow> (Inl e, m1) | (Inr _, m1) \<Rightarrow>
      (Inr (filter (\<lambda>a. Loan.reader_id (loan_objects m1 ! a) = rid')
                   (map snd (active_loans m1))), m1)))"

definition get_loan_history ::
  "'f LibraryManager \<Rightarrow> (error + nat list) \<times> 'f LibraryManager"
where
  "get_loan_history m = (Inr (loan_history m), m)"

subsection \<open>Sequences of public calls\<close>

datatype op =
    AddBook str str str int
  | RegisterReader str str
  | GetBook str
  | GetReader str
  | SearchBooks str
  | BorrowBook str str date int
  | ReturnBook str str date
  | CalculateFine date date
  | GetActiveLoans
  | GetReaderActiveLoans str
  | GetLoanHistory

text \<open>
  The manager after one call, whether the call returned or raised (the caller catches the
  exception and goes on with the same object).
\<close>

fun step :: "'f builtins \<Rightarrow> 'f LibraryManager \<Rightarrow> op \<Rightarrow> 'f LibraryManager" where
  "step F m (AddBook b t a n) = snd (add_book b t a n m)"
| "step F m (RegisterReader r n) = snd (register_reader r n m)"
| "step F m (GetBook b) = snd (get_book b m)"
| "step F m (GetReader r) = snd (get_reader r m)"
| "step F m (SearchBooks q) = snd (search_books F q m)"
| "step F m (BorrowBook b r d n) = snd (borrow_book b r d n m)"
| "step F m (ReturnBook b r d) = snd (return_book F b r d m)"
| "step F m (CalculateFine d r) = snd (calculate_fine F d r m)"
| "step F m GetActiveLoans = snd (get_active_loans m)"
| "step F m (GetReaderActiveLoans r) = snd (get_reader_active_loans r m)"
| "step F m GetLoanHistory = snd (get_loan_history m)"

definition run :: "'f builtins \<Rightarrow> 'f LibraryManager \<Rightarrow> op list \<Rightarrow> 'f LibraryManager" where
  "run F m ops = foldl (step F) m ops"

subsection \<open>The runtime and the managers of the examples\<close>

text \<open>
  A float is a finite value, held as the rational number it denotes, an infinity or a NaN.
  The two zeros are one value, \<open>Fin 0\<close>.
\<close>

datatype pyfloat = Fin rat | PInf | NInf | NaN

text \<open>The number of binary digits of a natural number.\<close>

fun bit_length :: "nat \<Rightarrow> nat" where
  "bit_length n = (if n = 0 then 0 else Suc (bit_length (n div 2)))"

declare bit_length.simps [simp del]

definition pow2 :: "int \<Rightarrow> rat" where
  "pow2 k = (if 0 \<le> k then 2 ^ nat k else 1 / 2 ^ nat (- k))"

text \<open>The nearest integer, a tie going to the even one.\<close>

definition round_half_even :: "rat \<Rightarrow> int" where
  "round_half_even x =
     (let f = \<lfloor>x\<rfloor>; r = x - of_int f
      in if r < 1 / 2 then f
         else if 1 / 2 < r then f + 1
         else if even f then f else f + 1)"

text \<open>For \<open>0 < a\<close>, the exponent \<open>k\<close> with \<open>2 ^ k \<le> a < 2 ^ (k + 1)\<close>.\<close>

definition floor_log2 :: "rat \<Rightarrow> int" where
  "floor_log2 a =
     (let (n, d) = quotient_of a;
          k = int (bit_length (nat n)) - int (bit_length (nat d))
      in if pow2 k \<le> a then k else k - 1)"

text \<open>
  The binary64 value nearest to a rational number, a tie going to the even significand: 53
  significant bits, no bit below \<open>2 ^ - 1074\<close>, and an infinity from \<open>2 ^ 1024\<close> on.
\<close>

definition to_double :: "rat \<Rightarrow> pyfloat" where
  "to_double q =
     (if q = 0 then Fin 0
      else
        let a = \<bar>q\<bar>;
            p = max (floor_log2 a - 52) (- 1074);
            v = of_int (round_half_even (a / pow2 p)) * pow2 p
        in if pow2 1024 \<le> v then (if 0 < q then PInf else NInf)
           else Fin (if 0 < q then v else - v))"

text \<open>\<open>x < 0\<close>, false of a NaN.\<close>

fun py_lt0 :: "pyfloat \<Rightarrow> bool" where
  "py_lt0 (Fin q) = (q < 0)"
| "py_lt0 PInf = False"
| "py_lt0 NInf = True"
| "py_lt0 NaN = False"

text \<open>The product of two floats.\<close>

fun fmul :: "pyfloat \<Rightarrow> pyfloat \<Rightarrow> pyfloat" where
  "fmul NaN y = NaN"
| "fmul x NaN = NaN"
| "fmul (Fin a) (Fin b) = to_double (a * b)"
| "fmul (Fin a) PInf = (if a = 0 then NaN else if 0 < a then PInf else NInf)"
| "fmul (Fin a) NInf = (if a = 0 then NaN else if 0 < a then NInf else PInf)"
| "fmul PInf (Fin b) = (if b = 0 then NaN else if 0 < b then PInf else NInf)"
| "fmul NInf (Fin b) = (if b = 0 then NaN else if 0 < b then NInf else PInf)"
| "fmul PInf PInf = PInf"
| "fmul PInf NInf = NInf"
| "fmul NInf PInf = NInf"
| "fmul NInf NInf = PInf"

text \<open>
  \<open>n * x\<close> for an \<open>int\<close> \<open>n\<close>: the \<open>int\<close> is converted to the nearest float first. (Python
  raises \<open>OverflowError\<close> for an \<open>int\<close> from \<open>2 ^ 1024\<close> on; the number of days between two
  dates is below \<open>2 ^ 22\<close>.)
\<close>

definition py_mul :: "int \<Rightarrow> pyfloat \<Rightarrow> pyfloat" where
  "py_mul n x = fmul (to_double (of_int n)) x"

text \<open>
  \<open>round(x, 2)\<close>: an infinity or a NaN is returned as it is; a finite value is rounded to the
  nearest multiple of 1/100, a tie going to the even one, and that is converted to a float.
\<close>

fun py_round2 :: "pyfloat \<Rightarrow> pyfloat" where
  "py_round2 (Fin q) = to_double (of_int (round_half_even (q * 100)) / 100)"
| "py_round2 x = x"

text \<open>
  The three Unicode tables on the blocks Basic Latin and Latin-1 Supplement and on the Greek
  letters U+0391 to U+03C9, as Python 3.11 has them. Outside these blocks the instance takes
  a character as its own lower case, not cased and not case-ignorable, so an example may use
  characters of these blocks only.
\<close>

definition py_to_lower_full :: "nat \<Rightarrow> nat list" where
  "py_to_lower_full c =
     (if (0x41 \<le> c \<and> c \<le> 0x5A) \<or> (0xC0 \<le> c \<and> c \<le> 0xDE \<and> c \<noteq> 0xD7)
         \<or> (0x391 \<le> c \<and> c \<le> 0x3AB \<and> c \<noteq> 0x3A2)
      then [c + 32] else [c])"

definition py_is_cased :: "nat \<Rightarrow> bool" where
  "py_is_cased c =
     ((0x41 \<le> c \<and> c \<le> 0x5A) \<or> (0x61 \<le> c \<and> c \<le> 0x7A) \<or> c = 0xAA \<or> c = 0xB5
      \<or> c = 0xBA \<or> (0xC0 \<le> c \<and> c \<le> 0xD6) \<or> (0xD8 \<le> c \<and> c \<le> 0xF6)
      \<or> (0xF8 \<le> c \<and> c \<le> 0xFF) \<or> (0x391 \<le> c \<and> c \<le> 0x3C9 \<and> c \<noteq> 0x3A2))"

definition py_is_case_ignorable :: "nat \<Rightarrow> bool" where
  "py_is_case_ignorable c =
     (c \<in> set [0x27, 0x2E, 0x3A, 0x5E, 0x60, 0xA8, 0xAD, 0xAF, 0xB4, 0xB7, 0xB8])"

definition py :: "pyfloat builtins" where
  "py = \<lparr>flt_lt0 = py_lt0, flt_mul = py_mul, flt_round2 = py_round2,
         to_lower_full = py_to_lower_full, is_cased = py_is_cased,
         is_case_ignorable = py_is_case_ignorable\<rparr>"

text \<open>The calls of \<open>TestLibraryManager.setUp\<close>, on a manager with \<open>fine_per_day=10.0\<close>.\<close>

definition setUp_ops :: "op list" where
  "setUp_ops =
     [AddBook (lit ''B1'') (lit ''Clean Code'') (lit ''Robert Martin'') 2,
      AddBook (lit ''B2'') (lit ''The Pragmatic Programmer'') (lit ''Andrew Hunt'') 1,
      RegisterReader (lit ''R1'') (lit ''Ivan Petrov''),
      RegisterReader (lit ''R2'') (lit ''Anna Sidorova'')]"

definition setUp :: "pyfloat LibraryManager" where
  "setUp = run py (fresh (Fin 10)) setUp_ops"

text \<open>After \<open>setUp\<close>, reader \<open>R1\<close> borrows book \<open>B1\<close> on 2026-03-01 for 14 days.\<close>

definition borrowed :: "pyfloat LibraryManager" where
  "borrowed = run py (fresh (Fin 10)) (setUp_ops @ [BorrowBook (lit ''B1'') (lit ''R1'') 739676 14])"

text \<open>
  After \<open>setUp\<close>, \<open>borrow_book("B1", " R1 ", date(2026, 3, 1))\<close>: the reader id is passed with
  a space on each side.
\<close>

definition padded_borrow :: "pyfloat LibraryManager" where
  "padded_borrow = snd (borrow_book (lit ''B1'') (lit '' R1 '') 739676 14 setUp)"

text \<open>
  After \<open>borrowed\<close>, \<open>borrow_book("B1", " R1 ", date(2026, 3, 2))\<close>, and then
  \<open>return_book("B1", " R1 ", date(2026, 3, 5))\<close>.
\<close>

definition both_borrowed :: "pyfloat LibraryManager" where
  "both_borrowed = snd (borrow_book (lit ''B1'') (lit '' R1 '') 739677 14 borrowed)"

definition both_returned :: "pyfloat LibraryManager" where
  "both_returned = snd (return_book py (lit ''B1'') (lit '' R1 '') 739680 both_borrowed)"

text \<open>
  A manager with one book, whose title is the five Greek capitals omicron, delta, omicron,
  sigma, epsilon; and the query made of the first four.
\<close>

definition odos_title :: str where
  "odos_title = [0x39F, 0x394, 0x39F, 0x3A3, 0x395]"

definition odos_query :: str where
  "odos_query = [0x39F, 0x394, 0x39F, 0x3A3]"


subsection \<open>What the properties speak of\<close>

text \<open>The objects \<open>self.books.values()\<close> and \<open>self._active_loans.values()\<close>.\<close>

definition stored_books :: "'f LibraryManager \<Rightarrow> Book list" where
  "stored_books m = map (\<lambda>a. book_objects m ! a) (map snd (books m))"

definition active_loan_objects :: "'f LibraryManager \<Rightarrow> Loan list" where
  "active_loan_objects m = map (\<lambda>a. loan_objects m ! a) (map snd (active_loans m))"

text \<open>The active loans of a (book, reader) pair, the ids compared after trimming.\<close>

definition active_loans_of_pair :: "'f LibraryManager \<Rightarrow> str \<Rightarrow> str \<Rightarrow> Loan list" where
  "active_loans_of_pair m b r =
     filter (\<lambda>l. strip (Loan.book_id l) = strip b \<and> strip (Loan.reader_id l) = strip r)
       (active_loan_objects m)"

text \<open>The active loans of one book.\<close>

definition active_loans_of_book :: "'f LibraryManager \<Rightarrow> str \<Rightarrow> Loan list" where
  "active_loans_of_book m k = filter (\<lambda>l. Loan.book_id l = k) (active_loan_objects m)"



text \<open>A call of \<open>borrow_book\<close> for the pair \<open>(b, r)\<close>, the ids compared after trimming.\<close>

fun borrows_pair :: "str \<Rightarrow> str \<Rightarrow> op \<Rightarrow> bool" where
  "borrows_pair b r (BorrowBook b' r' d n) = (strip b' = strip b \<and> strip r' = strip r)"
| "borrows_pair b r x = False"

subsection \<open>The representation invariant\<close>

text \<open>The number of entries of the active-loan index whose key names the book \<open>k\<close>.\<close>

definition loans_of :: "str \<Rightarrow> ((str \<times> str) \<times> nat) list \<Rightarrow> nat" where
  "loans_of k al = length (filter (\<lambda>e. fst (fst e) = k) al)"

text \<open>
  What every manager built by public calls satisfies: the book dictionary holds each book
  object once, under its own id; the active-loan index holds distinct loan objects, each under
  its own (book id, reader id), not yet returned and of a stored book; the history holds every
  loan object in creation order; and no book has a negative number of available copies or a
  number that, with its active loans, differs from its total.
\<close>

definition wf :: "'f LibraryManager \<Rightarrow> bool" where
  "wf m \<longleftrightarrow>
     distinct (map fst (books m)) \<and>
     map snd (books m) = [0..<length (book_objects m)] \<and>
     (\<forall>(k, a) \<in> set (books m). Book.book_id (book_objects m ! a) = k) \<and>
     distinct (map fst (active_loans m)) \<and>
     distinct (map snd (active_loans m)) \<and>
     (\<forall>(k, a) \<in> set (active_loans m).
        a < length (loan_objects m) \<and>
        k = (Loan.book_id (loan_objects m ! a), Loan.reader_id (loan_objects m ! a)) \<and>
        returned_date (loan_objects m ! a) = None \<and>
        map_of (books m) (fst k) \<noteq> None) \<and>
     loan_history m = [0..<length (loan_objects m)] \<and>
     (\<forall>(k, a) \<in> set (books m).
        0 \<le> available_copies (book_objects m ! a) \<and>
        available_copies (book_objects m ! a) + int (loans_of k (active_loans m))
          = total_copies (book_objects m ! a))"

section \<open>The methods, case by case\<close>

lemma init_fresh:
  "init F fpd = (if flt_lt0 F fpd then Inl ValidationError else Inr (fresh fpd))"
  by (simp add: init_def fresh_def)

lemma update_absent: "map_of xs k = None \<Longrightarrow> AList.update k v xs = xs @ [(k, v)]"
  by (induction xs) (auto split: if_splits)

lemma require_non_empty_Inr: "require_non_empty v = Inr s \<longleftrightarrow> (strip v \<noteq> [] \<and> s = strip v)"
  by (auto simp: require_non_empty_def Let_def)

lemma require_non_empty_Inl: "require_non_empty v = Inl e \<longleftrightarrow> (strip v = [] \<and> e = ValidationError)"
  by (auto simp: require_non_empty_def Let_def)

lemma add_book_cases:
  "add_book b t a n m =
     (if strip b = [] \<or> strip t = [] \<or> strip a = [] \<or> n \<le> 0 then (Inl ValidationError, m)
      else if map_of (books m) (strip b) \<noteq> None then (Inl AlreadyExistsError, m)
      else (Inr (length (book_objects m)),
            m\<lparr>book_objects := book_objects m @
                 [\<lparr>Book.book_id = strip b, title = strip t, author = strip a,
                   total_copies = n, available_copies = n\<rparr>],
               books := books m @ [(strip b, length (book_objects m))]\<rparr>))"
  by (auto simp: add_book_def require_non_empty_def Let_def update_absent)

lemma register_reader_cases:
  "register_reader r n m =
     (if strip r = [] \<or> strip n = [] then (Inl ValidationError, m)
      else if map_of (readers m) (strip r) \<noteq> None then (Inl AlreadyExistsError, m)
      else (Inr \<lparr>Reader.reader_id = strip r, full_name = strip n\<rparr>,
            m\<lparr>readers := readers m @ [(strip r, \<lparr>Reader.reader_id = strip r, full_name = strip n\<rparr>)]\<rparr>))"
  by (auto simp: register_reader_def require_non_empty_def Let_def update_absent)

lemma get_book_cases:
  "get_book b m =
     (if strip b = [] then (Inl ValidationError, m)
      else case map_of (books m) (strip b) of
             None \<Rightarrow> (Inl NotFoundError, m) | Some a \<Rightarrow> (Inr a, m))"
  by (auto simp: get_book_def require_non_empty_def Let_def)

lemma get_reader_cases:
  "get_reader r m =
     (if strip r = [] then (Inl ValidationError, m)
      else case map_of (readers m) (strip r) of
             None \<Rightarrow> (Inl NotFoundError, m) | Some x \<Rightarrow> (Inr x, m))"
  by (auto simp: get_reader_def require_non_empty_def Let_def)

lemma date_add_cases:
  "0 < n \<Longrightarrow> 0 \<le> d \<Longrightarrow>
   (case timedelta n of Inl e \<Rightarrow> Inl e | Inr td \<Rightarrow> date_add d td) =
     (if d + n \<le> MAXORDINAL then Inr (d + n) else Inl OverflowError)"
  by (auto simp: timedelta_def date_add_def MAXORDINAL_def Let_def)

lemma borrow_book_cases:
  "borrow_book b r d n m =
     (if n \<le> 0 then (Inl ValidationError, m)
      else if strip b = [] then (Inl ValidationError, m)
      else case map_of (books m) (strip b) of None \<Rightarrow> (Inl NotFoundError, m) | Some a \<Rightarrow>
        if strip r = [] then (Inl ValidationError, m)
        else if map_of (readers m) (strip r) = None then (Inl NotFoundError, m)
        else if available_copies (book_objects m ! a) \<le> 0 then (Inl BusinessRuleError, m)
        else if map_of (active_loans m) (Book.book_id (book_objects m ! a), r) \<noteq> None
          then (Inl BusinessRuleError, m)
        else if 999999999 < n \<or> \<not> (0 < d + n \<and> d + n \<le> MAXORDINAL) then (Inl OverflowError, m)
        else (Inr (length (loan_objects m)),
              m\<lparr>loan_objects := loan_objects m @
                   [\<lparr>Loan.book_id = Book.book_id (book_objects m ! a), reader_id = r,
                     borrow_date = d, due_date = d + n, returned_date = None\<rparr>],
                 active_loans := active_loans m @
                   [((Book.book_id (book_objects m ! a), r), length (loan_objects m))],
                 loan_history := loan_history m @ [length (loan_objects m)],
                 book_objects := (book_objects m)
                   [a := (book_objects m ! a)
                      \<lparr>available_copies := available_copies (book_objects m ! a) - 1\<rparr>]\<rparr>))"
  by (auto simp: borrow_book_def get_book_cases get_reader_cases Let_def update_absent
        timedelta_def date_add_def split: option.splits)

lemma return_book_cases:
  "return_book F b r d m =
     (if strip b = [] \<or> strip r = [] then (Inl ValidationError, m)
      else case map_of (active_loans m) (strip b, strip r) of
        None \<Rightarrow> (Inl BusinessRuleError, m)
      | Some la \<Rightarrow>
         let lo = (loan_objects m)[la := (loan_objects m ! la)\<lparr>returned_date := Some d\<rparr>]
         in (case map_of (books m) (Loan.book_id (lo ! la)) of
           None \<Rightarrow> (Inl KeyError, m\<lparr>loan_objects := lo\<rparr>)
         | Some ba \<Rightarrow>
            (Inr \<lparr>overdue_days = max (d - due_date (lo ! la)) 0,
                  fine_amount = flt_round2 F (flt_mul F (max (d - due_date (lo ! la)) 0) (fine_per_day m))\<rparr>,
             m\<lparr>loan_objects := lo,
               book_objects := (book_objects m)
                 [ba := (book_objects m ! ba)
                    \<lparr>available_copies := available_copies (book_objects m ! ba) + 1\<rparr>],
               active_loans := AList.delete (strip b, strip r) (active_loans m)\<rparr>)))"
  by (auto simp: return_book_def require_non_empty_def Let_def days_between_def split: option.splits)

section \<open>The invariant holds in every reachable state\<close>

lemma wf_fresh: "wf (fresh fpd)"
  by (simp add: wf_def fresh_def)

lemma books_addr_lt:
  assumes "map snd al = [0..<n]" "(k, a) \<in> set al"
  shows "a < (n::nat)"
proof -
  have "a \<in> set (map snd al)" using assms(2) by force
  then show ?thesis using assms(1) by simp
qed

lemma books_addr_inj:
  assumes "map snd al = [0..<n]" "(k, a) \<in> set al" "(k', a) \<in> set al"
  shows "k = k'"
proof -
  have "distinct (map snd al)" using assms(1) by simp
  then have "inj_on snd (set al)" by (simp add: distinct_map)
  then have "(k, a) = (k', a)"
    using assms(2,3) by (intro inj_onD [of snd "set al"]) simp_all
  then show ?thesis by simp
qed

lemma delete_filter: "AList.delete k al = filter (\<lambda>e. fst e \<noteq> k) al"
  by (induction al) (auto simp: AList.delete_eq)

lemma loans_of_absent:
  "\<forall>e \<in> set al. fst (fst e) \<noteq> k \<Longrightarrow> loans_of k al = 0"
  by (induction al) (auto simp: loans_of_def)

lemma loans_of_append [simp]: "loans_of k (al @ bl) = loans_of k al + loans_of k bl"
  by (simp add: loans_of_def)

lemma loans_of_single [simp]: "loans_of k [e] = (if fst (fst e) = k then 1 else 0)"
  by (simp add: loans_of_def)

lemma loans_of_delete:
  "distinct (map fst al) \<Longrightarrow> (key, v) \<in> set al \<Longrightarrow>
   loans_of k (AList.delete key al) + (if fst key = k then 1 else 0) = loans_of k al"
proof (induction al)
  case Nil
  then show ?case by simp
next
  case (Cons e al)
  show ?case
  proof (cases "fst e = key")
    case True
    then have "key \<notin> fst ` set al" using Cons.prems(1) by auto
    then have "filter (\<lambda>e. fst e \<noteq> key) al = al"
      by (simp add: filter_id_conv) force
    then show ?thesis using True by (simp add: loans_of_def delete_filter)
  next
    case False
    then have "(key, v) \<in> set al" using Cons.prems(2) by auto
    then show ?thesis using Cons.IH Cons.prems(1) False
      by (simp add: loans_of_def delete_filter)
  qed
qed

lemma wfI:
  assumes "distinct (map fst (books m))"
    and "map snd (books m) = [0..<length (book_objects m)]"
    and "\<And>k a. (k, a) \<in> set (books m) \<Longrightarrow> Book.book_id (book_objects m ! a) = k"
    and "distinct (map fst (active_loans m))"
    and "distinct (map snd (active_loans m))"
    and "\<And>k a. (k, a) \<in> set (active_loans m) \<Longrightarrow>
           a < length (loan_objects m) \<and>
           k = (Loan.book_id (loan_objects m ! a), Loan.reader_id (loan_objects m ! a)) \<and>
           returned_date (loan_objects m ! a) = None \<and>
           map_of (books m) (fst k) \<noteq> None"
    and "loan_history m = [0..<length (loan_objects m)]"
    and "\<And>k a. (k, a) \<in> set (books m) \<Longrightarrow>
           0 \<le> available_copies (book_objects m ! a) \<and>
           available_copies (book_objects m ! a) + int (loans_of k (active_loans m))
             = total_copies (book_objects m ! a)"
  shows "wf m"
  unfolding wf_def using assms by blast

lemma wf_books_distinct: "wf m \<Longrightarrow> distinct (map fst (books m))"
  by (simp add: wf_def)

lemma wf_books_addrs: "wf m \<Longrightarrow> map snd (books m) = [0..<length (book_objects m)]"
  by (simp add: wf_def)

lemma wf_book_id: "wf m \<Longrightarrow> (k, a) \<in> set (books m) \<Longrightarrow> Book.book_id (book_objects m ! a) = k"
  by (auto simp: wf_def)

lemma wf_loans_distinct: "wf m \<Longrightarrow> distinct (map fst (active_loans m))"
  by (simp add: wf_def)

lemma wf_loans_addrs: "wf m \<Longrightarrow> distinct (map snd (active_loans m))"
  by (simp add: wf_def)

lemma wf_loan_lt: "wf m \<Longrightarrow> (k, a) \<in> set (active_loans m) \<Longrightarrow> a < length (loan_objects m)"
  by (auto simp: wf_def)

lemma wf_loan_key:
  "wf m \<Longrightarrow> (k, a) \<in> set (active_loans m) \<Longrightarrow>
     k = (Loan.book_id (loan_objects m ! a), Loan.reader_id (loan_objects m ! a))"
  by (auto simp: wf_def)

lemma wf_loan_active:
  "wf m \<Longrightarrow> (k, a) \<in> set (active_loans m) \<Longrightarrow> returned_date (loan_objects m ! a) = None"
  by (auto simp: wf_def)

lemma wf_loan_book:
  "wf m \<Longrightarrow> (k, a) \<in> set (active_loans m) \<Longrightarrow> map_of (books m) (fst k) \<noteq> None"
  by (auto simp: wf_def)

lemma wf_history: "wf m \<Longrightarrow> loan_history m = [0..<length (loan_objects m)]"
  by (simp add: wf_def)

lemma wf_avail: "wf m \<Longrightarrow> (k, a) \<in> set (books m) \<Longrightarrow> 0 \<le> available_copies (book_objects m ! a)"
  by (auto simp: wf_def)

lemma wf_count:
  "wf m \<Longrightarrow> (k, a) \<in> set (books m) \<Longrightarrow>
     available_copies (book_objects m ! a) + int (loans_of k (active_loans m))
       = total_copies (book_objects m ! a)"
  by (auto simp: wf_def)

lemma wf_book_addr_lt: "wf m \<Longrightarrow> (k, a) \<in> set (books m) \<Longrightarrow> a < length (book_objects m)"
  by (rule books_addr_lt [OF wf_books_addrs])

lemma wf_book_lookup: "wf m \<Longrightarrow> map_of (books m) k = Some a \<longleftrightarrow> (k, a) \<in> set (books m)"
  by (simp add: wf_books_distinct)

lemma wf_loan_lookup:
  "wf m \<Longrightarrow> map_of (active_loans m) k = Some a \<longleftrightarrow> (k, a) \<in> set (active_loans m)"
  by (simp add: wf_loans_distinct)

lemma wf_readers_update [simp]: "wf (m\<lparr>readers := rs\<rparr>) = wf m"
  by (simp add: wf_def)

lemma wf_register_reader:
  assumes "wf m" shows "wf (snd (register_reader r n m))"
  using assms by (simp add: register_reader_cases)

lemma wf_add_book:
  assumes "wf m" shows "wf (snd (add_book b t a n m))"
proof (cases "strip b = [] \<or> strip t = [] \<or> strip a = [] \<or> n \<le> 0 \<or> map_of (books m) (strip b) \<noteq> None")
  case True
  then show ?thesis using assms by (auto simp: add_book_cases)
next
  case False
  define n0 where "n0 = length (book_objects m)"
  define bk where "bk = \<lparr>Book.book_id = strip b, title = strip t, author = strip a,
                   total_copies = n, available_copies = n\<rparr>"
  define m' where "m' = m\<lparr>book_objects := book_objects m @ [bk], books := books m @ [(strip b, n0)]\<rparr>"
  have sel: "books m' = books m @ [(strip b, n0)]" "book_objects m' = book_objects m @ [bk]"
    "active_loans m' = active_loans m" "loan_objects m' = loan_objects m"
    "loan_history m' = loan_history m"
    by (simp_all add: m'_def)
  from False have nb: "map_of (books m) (strip b) = None" and pos: "0 < n" by auto
  have lt: "a < n0" if "(k, a) \<in> set (books m)" for k a
    using assms wf_book_addr_lt that unfolding n0_def by blast
  have old: "book_objects m' ! a = book_objects m ! a" if "(k, a) \<in> set (books m)" for k a
    using lt[OF that] by (simp add: sel nth_append n0_def)
  have new: "book_objects m' ! n0 = bk"
    by (simp add: sel n0_def)
  have nokey: "\<forall>e \<in> set (active_loans m). fst (fst e) \<noteq> strip b"
  proof
    fix e assume "e \<in> set (active_loans m)"
    then have "(fst e, snd e) \<in> set (active_loans m)" by simp
    from wf_loan_book[OF assms this] show "fst (fst e) \<noteq> strip b" using nb by auto
  qed
  have fresh_key: "strip b \<notin> fst ` set (books m)"
    using nb by (simp add: map_of_eq_None_iff)
  have "wf m'"
  proof (rule wfI)
    show "distinct (map fst (books m'))"
      using wf_books_distinct[OF assms] fresh_key by (simp add: sel)
    show "map snd (books m') = [0..<length (book_objects m')]"
      using wf_books_addrs[OF assms] by (simp add: sel n0_def)
    show "Book.book_id (book_objects m' ! a) = k" if "(k, a) \<in> set (books m')" for k a
    proof (cases "(k, a) \<in> set (books m)")
      case True
      then show ?thesis using wf_book_id[OF assms True] old[OF True] by simp
    next
      case False
      then have "k = strip b" "a = n0" using that by (simp_all add: sel)
      then show ?thesis using new by (simp add: bk_def)
    qed
    show "distinct (map fst (active_loans m'))"
      using wf_loans_distinct[OF assms] by (simp add: sel)
    show "distinct (map snd (active_loans m'))"
      using wf_loans_addrs[OF assms] by (simp add: sel)
    show "a < length (loan_objects m') \<and>
           k = (Loan.book_id (loan_objects m' ! a), Loan.reader_id (loan_objects m' ! a)) \<and>
           returned_date (loan_objects m' ! a) = None \<and>
           map_of (books m') (fst k) \<noteq> None" if "(k, a) \<in> set (active_loans m')" for k a
    proof -
      from that have in_m: "(k, a) \<in> set (active_loans m)" by (simp add: sel)
      have "map_of (books m') (fst k) \<noteq> None"
        using wf_loan_book[OF assms in_m] by (auto simp: sel)
      then show ?thesis
        using wf_loan_lt[OF assms in_m] wf_loan_key[OF assms in_m] wf_loan_active[OF assms in_m]
        by (simp add: sel)
    qed
    show "loan_history m' = [0..<length (loan_objects m')]"
      using wf_history[OF assms] by (simp add: sel)
    show "0 \<le> available_copies (book_objects m' ! a) \<and>
           available_copies (book_objects m' ! a) + int (loans_of k (active_loans m'))
             = total_copies (book_objects m' ! a)" if "(k, a) \<in> set (books m')" for k a
    proof (cases "(k, a) \<in> set (books m)")
      case True
      then show ?thesis using wf_count[OF assms True] wf_avail[OF assms True] old[OF True]
        by (simp add: sel)
    next
      case False
      then have "k = strip b" "a = n0" using that by (simp_all add: sel)
      then show ?thesis using pos loans_of_absent[OF nokey] new by (simp add: sel bk_def)
    qed
  qed
  then show ?thesis using False by (simp add: add_book_cases m'_def bk_def n0_def)
qed

lemma wf_borrow_state:
  assumes wf: "wf m"
    and bk: "(kb, a) \<in> set (books m)"
    and av: "0 < available_copies (book_objects m ! a)"
    and nk: "map_of (active_loans m) (kb, r) = None"
  shows "wf (m\<lparr>loan_objects := loan_objects m @
                 [\<lparr>Loan.book_id = kb, reader_id = r, borrow_date = d, due_date = due,
                   returned_date = None\<rparr>],
               active_loans := active_loans m @ [((kb, r), length (loan_objects m))],
               loan_history := loan_history m @ [length (loan_objects m)],
               book_objects := (book_objects m)
                 [a := (book_objects m ! a)
                    \<lparr>available_copies := available_copies (book_objects m ! a) - 1\<rparr>]\<rparr>)"
    (is "wf ?m'")
proof -
  define n0 where "n0 = length (loan_objects m)"
  define ln where "ln = \<lparr>Loan.book_id = kb, reader_id = r, borrow_date = d, due_date = due,
                   returned_date = None\<rparr>"
  define bo where "bo = (book_objects m)
                 [a := (book_objects m ! a)
                    \<lparr>available_copies := available_copies (book_objects m ! a) - 1\<rparr>]"
  define m' where "m' = ?m'"
  have sel: "books m' = books m" "book_objects m' = bo"
    "active_loans m' = active_loans m @ [((kb, r), n0)]"
    "loan_objects m' = loan_objects m @ [ln]"
    "loan_history m' = loan_history m @ [n0]"
    by (simp_all add: m'_def n0_def ln_def bo_def)
  have alt: "a < length (book_objects m)" by (rule wf_book_addr_lt [OF wf bk])
  have bo_len: "length bo = length (book_objects m)" by (simp add: bo_def)
  have bo_a: "bo ! a = (book_objects m ! a)
                    \<lparr>available_copies := available_copies (book_objects m ! a) - 1\<rparr>"
    using alt by (simp add: bo_def)
  have bo_other: "bo ! a' = book_objects m ! a'" if "a' \<noteq> a" for a'
    using that by (simp add: bo_def)
  have same_addr: "k = kb" if "(k, a) \<in> set (books m)" for k
    by (rule books_addr_inj [OF wf_books_addrs [OF wf] that bk])
  have same_key: "a' = a" if "(kb, a') \<in> set (books m)" for a'
    using that bk wf_books_distinct [OF wf] by (meson eq_key_imp_eq_value)
  have old_loan: "loan_objects m' ! x = loan_objects m ! x" if "x < n0" for x
    using that by (simp add: sel nth_append n0_def)
  have new_loan: "loan_objects m' ! n0 = ln"
    by (simp add: sel n0_def)
  have fresh_key: "(kb, r) \<notin> fst ` set (active_loans m)"
    using nk by (simp add: map_of_eq_None_iff)
  have fresh_addr: "n0 \<notin> snd ` set (active_loans m)"
  proof
    assume "n0 \<in> snd ` set (active_loans m)"
    then obtain k where "(k, n0) \<in> set (active_loans m)" by force
    from wf_loan_lt [OF wf this] show False by (simp add: n0_def)
  qed
  have "wf m'"
  proof (rule wfI)
    show "distinct (map fst (books m'))"
      using wf_books_distinct [OF wf] by (simp add: sel)
    show "map snd (books m') = [0..<length (book_objects m')]"
      using wf_books_addrs [OF wf] by (simp add: sel bo_len)
    show "Book.book_id (book_objects m' ! x) = k" if "(k, x) \<in> set (books m')" for k x
    proof -
      from that have in_m: "(k, x) \<in> set (books m)" by (simp add: sel)
      show ?thesis
      proof (cases "x = a")
        case True
        then show ?thesis using wf_book_id [OF wf in_m] bo_a by (simp add: sel)
      next
        case False
        then show ?thesis using wf_book_id [OF wf in_m] bo_other by (simp add: sel)
      qed
    qed
    show "distinct (map fst (active_loans m'))"
      using wf_loans_distinct [OF wf] fresh_key by (simp add: sel)
    show "distinct (map snd (active_loans m'))"
      using wf_loans_addrs [OF wf] fresh_addr by (simp add: sel)
    show "x < length (loan_objects m') \<and>
           k = (Loan.book_id (loan_objects m' ! x), Loan.reader_id (loan_objects m' ! x)) \<and>
           returned_date (loan_objects m' ! x) = None \<and>
           map_of (books m') (fst k) \<noteq> None" if "(k, x) \<in> set (active_loans m')" for k x
    proof (cases "(k, x) \<in> set (active_loans m)")
      case True
      have lt: "x < n0" using wf_loan_lt [OF wf True] by (simp add: n0_def)
      show ?thesis
        using wf_loan_key [OF wf True] wf_loan_active [OF wf True] wf_loan_book [OF wf True]
          old_loan [OF lt] wf_loan_lt [OF wf True]
        by (simp add: sel)
    next
      case False
      then have eq: "k = (kb, r)" "x = n0" using that by (simp_all add: sel)
      have "map_of (books m) kb = Some a" using bk wf_book_lookup [OF wf] by simp
      moreover have "n0 < length (loan_objects m')" by (simp add: sel n0_def)
      ultimately show ?thesis using eq new_loan by (simp add: ln_def sel(1))
    qed
    show "loan_history m' = [0..<length (loan_objects m')]"
      using wf_history [OF wf] by (simp add: sel n0_def)
    show "0 \<le> available_copies (book_objects m' ! x) \<and>
           available_copies (book_objects m' ! x) + int (loans_of k (active_loans m'))
             = total_copies (book_objects m' ! x)" if "(k, x) \<in> set (books m')" for k x
    proof -
      from that have in_m: "(k, x) \<in> set (books m)" by (simp add: sel)
      show ?thesis
      proof (cases "x = a")
        case True
        then have "k = kb" using same_addr in_m by simp
        then show ?thesis
          using True wf_count [OF wf in_m] wf_avail [OF wf in_m] av bo_a by (simp add: sel)
      next
        case False
        then have "k \<noteq> kb" using same_key in_m by auto
        then show ?thesis
          using False wf_count [OF wf in_m] wf_avail [OF wf in_m] bo_other by (simp add: sel)
      qed
    qed
  qed
  then show ?thesis by (simp add: m'_def)
qed

lemma wf_return_state:
  assumes wf: "wf m"
    and ln: "(key, la) \<in> set (active_loans m)"
    and bk: "(fst key, ba) \<in> set (books m)"
  shows "wf (m\<lparr>loan_objects := (loan_objects m)
                 [la := (loan_objects m ! la)\<lparr>returned_date := Some d\<rparr>],
               book_objects := (book_objects m)
                 [ba := (book_objects m ! ba)
                    \<lparr>available_copies := available_copies (book_objects m ! ba) + 1\<rparr>],
               active_loans := AList.delete key (active_loans m)\<rparr>)"
    (is "wf ?m'")
proof -
  define lo where "lo = (loan_objects m)[la := (loan_objects m ! la)\<lparr>returned_date := Some d\<rparr>]"
  define bo where "bo = (book_objects m)
                 [ba := (book_objects m ! ba)
                    \<lparr>available_copies := available_copies (book_objects m ! ba) + 1\<rparr>]"
  define al where "al = AList.delete key (active_loans m)"
  define m' where "m' = ?m'"
  have sel: "books m' = books m" "book_objects m' = bo" "active_loans m' = al"
    "loan_objects m' = lo" "loan_history m' = loan_history m"
    by (simp_all add: m'_def lo_def bo_def al_def)
  have al_set: "set al = {e \<in> set (active_loans m). fst e \<noteq> key}"
    by (auto simp: al_def delete_filter)
  have blt: "ba < length (book_objects m)" by (rule wf_book_addr_lt [OF wf bk])
  have bo_len: "length bo = length (book_objects m)" by (simp add: bo_def)
  have lo_len: "length lo = length (loan_objects m)" by (simp add: lo_def)
  have bo_a: "bo ! ba = (book_objects m ! ba)
                    \<lparr>available_copies := available_copies (book_objects m ! ba) + 1\<rparr>"
    using blt by (simp add: bo_def)
  have bo_other: "bo ! a' = book_objects m ! a'" if "a' \<noteq> ba" for a'
    using that by (simp add: bo_def)
  have lo_other: "lo ! x = loan_objects m ! x" if "x \<noteq> la" for x
    using that by (simp add: lo_def)
  have same_addr: "k = fst key" if "(k, ba) \<in> set (books m)" for k
    by (rule books_addr_inj [OF wf_books_addrs [OF wf] that bk])
  have same_key: "a' = ba" if "(fst key, a') \<in> set (books m)" for a'
    using that bk wf_books_distinct [OF wf] by (meson eq_key_imp_eq_value)
  have other_addr: "x \<noteq> la" if "(k, x) \<in> set (active_loans m)" "k \<noteq> key" for k x
  proof
    assume "x = la"
    have "inj_on snd (set (active_loans m))"
      using wf_loans_addrs [OF wf] by (simp add: distinct_map)
    then have "(k, x) = (key, la)"
      using that(1) ln \<open>x = la\<close> by (intro inj_onD [of snd "set (active_loans m)"]) simp_all
    then show False using that(2) by simp
  qed
  have "wf m'"
  proof (rule wfI)
    show "distinct (map fst (books m'))"
      using wf_books_distinct [OF wf] by (simp add: sel)
    show "map snd (books m') = [0..<length (book_objects m')]"
      using wf_books_addrs [OF wf] by (simp add: sel bo_len)
    show "Book.book_id (book_objects m' ! x) = k" if "(k, x) \<in> set (books m')" for k x
    proof -
      from that have in_m: "(k, x) \<in> set (books m)" by (simp add: sel)
      show ?thesis
      proof (cases "x = ba")
        case True
        then show ?thesis using wf_book_id [OF wf in_m] bo_a by (simp add: sel)
      next
        case False
        then show ?thesis using wf_book_id [OF wf in_m] bo_other by (simp add: sel)
      qed
    qed
    show "distinct (map fst (active_loans m'))"
      using wf_loans_distinct [OF wf] by (simp add: sel al_def delete_filter distinct_map_filter)
    show "distinct (map snd (active_loans m'))"
      using wf_loans_addrs [OF wf] by (simp add: sel al_def delete_filter distinct_map_filter)
    show "x < length (loan_objects m') \<and>
           k = (Loan.book_id (loan_objects m' ! x), Loan.reader_id (loan_objects m' ! x)) \<and>
           returned_date (loan_objects m' ! x) = None \<and>
           map_of (books m') (fst k) \<noteq> None" if "(k, x) \<in> set (active_loans m')" for k x
    proof -
      from that have in_m: "(k, x) \<in> set (active_loans m)" and ne: "k \<noteq> key"
        by (simp_all add: sel al_set)
      have "x \<noteq> la" by (rule other_addr [OF in_m ne])
      then show ?thesis
        using wf_loan_key [OF wf in_m] wf_loan_active [OF wf in_m] wf_loan_book [OF wf in_m]
          wf_loan_lt [OF wf in_m] lo_other
        by (simp add: sel lo_len)
    qed
    show "loan_history m' = [0..<length (loan_objects m')]"
      using wf_history [OF wf] by (simp add: sel lo_len)
    show "0 \<le> available_copies (book_objects m' ! x) \<and>
           available_copies (book_objects m' ! x) + int (loans_of k (active_loans m'))
             = total_copies (book_objects m' ! x)" if "(k, x) \<in> set (books m')" for k x
    proof -
      from that have in_m: "(k, x) \<in> set (books m)" by (simp add: sel)
      have del: "loans_of k al + (if fst key = k then 1 else 0) = loans_of k (active_loans m)"
        unfolding al_def by (rule loans_of_delete [OF wf_loans_distinct [OF wf] ln])
      show ?thesis
      proof (cases "x = ba")
        case True
        then have "k = fst key" using same_addr in_m by simp
        then show ?thesis
          using True wf_count [OF wf in_m] wf_avail [OF wf in_m] bo_a del by (simp add: sel)
      next
        case False
        then have "k \<noteq> fst key" using same_key in_m by auto
        then show ?thesis
          using False wf_count [OF wf in_m] wf_avail [OF wf in_m] bo_other del by (simp add: sel)
      qed
    qed
  qed
  then show ?thesis by (simp add: m'_def)
qed

lemma borrow_book_wf_cases:
  assumes wf: "wf m"
  shows "borrow_book b r d n m =
     (if n \<le> 0 then (Inl ValidationError, m)
      else if strip b = [] then (Inl ValidationError, m)
      else case map_of (books m) (strip b) of None \<Rightarrow> (Inl NotFoundError, m) | Some a \<Rightarrow>
        if strip r = [] then (Inl ValidationError, m)
        else if map_of (readers m) (strip r) = None then (Inl NotFoundError, m)
        else if available_copies (book_objects m ! a) \<le> 0 then (Inl BusinessRuleError, m)
        else if map_of (active_loans m) (strip b, r) \<noteq> None then (Inl BusinessRuleError, m)
        else if 999999999 < n \<or> \<not> (0 < d + n \<and> d + n \<le> MAXORDINAL) then (Inl OverflowError, m)
        else (Inr (length (loan_objects m)),
              m\<lparr>loan_objects := loan_objects m @
                   [\<lparr>Loan.book_id = strip b, reader_id = r,
                     borrow_date = d, due_date = d + n, returned_date = None\<rparr>],
                 active_loans := active_loans m @ [((strip b, r), length (loan_objects m))],
                 loan_history := loan_history m @ [length (loan_objects m)],
                 book_objects := (book_objects m)
                   [a := (book_objects m ! a)
                      \<lparr>available_copies := available_copies (book_objects m ! a) - 1\<rparr>]\<rparr>))"
proof (cases "map_of (books m) (strip b)")
  case None
  then show ?thesis by (simp add: borrow_book_cases)
next
  case (Some a)
  then have "(strip b, a) \<in> set (books m)" using wf_book_lookup [OF wf] by simp
  then have "Book.book_id (book_objects m ! a) = strip b" by (rule wf_book_id [OF wf])
  then show ?thesis using Some by (simp add: borrow_book_cases)
qed

lemma wf_borrow_book:
  assumes wf: "wf m" shows "wf (snd (borrow_book b r d n m))"
proof (cases "fst (borrow_book b r d n m)")
  case (Inl e)
  then have "snd (borrow_book b r d n m) = m"
    by (auto simp: borrow_book_wf_cases [OF wf] split: if_splits option.splits)
  then show ?thesis using wf by simp
next
  case (Inr x)
  then obtain a where a: "map_of (books m) (strip b) = Some a"
    and av: "0 < available_copies (book_objects m ! a)"
    and nk: "map_of (active_loans m) (strip b, r) = None"
    and st: "snd (borrow_book b r d n m) =
        m\<lparr>loan_objects := loan_objects m @
                   [\<lparr>Loan.book_id = strip b, reader_id = r,
                     borrow_date = d, due_date = d + n, returned_date = None\<rparr>],
                 active_loans := active_loans m @ [((strip b, r), length (loan_objects m))],
                 loan_history := loan_history m @ [length (loan_objects m)],
                 book_objects := (book_objects m)
                   [a := (book_objects m ! a)
                      \<lparr>available_copies := available_copies (book_objects m ! a) - 1\<rparr>]\<rparr>"
    by (simp add: borrow_book_wf_cases [OF wf] split: if_splits option.splits)
  from a have "(strip b, a) \<in> set (books m)" using wf_book_lookup [OF wf] by simp
  from wf_borrow_state [OF wf this av nk] show ?thesis by (simp add: st)
qed

lemma return_book_wf_cases:
  assumes wf: "wf m"
  shows "return_book F b r d m =
     (if strip b = [] \<or> strip r = [] then (Inl ValidationError, m)
      else case map_of (active_loans m) (strip b, strip r) of
        None \<Rightarrow> (Inl BusinessRuleError, m)
      | Some la \<Rightarrow>
          (case map_of (books m) (strip b) of
             None \<Rightarrow> (Inl KeyError, m)
           | Some ba \<Rightarrow>
            (Inr \<lparr>overdue_days = max (d - due_date (loan_objects m ! la)) 0,
                  fine_amount = flt_round2 F
                    (flt_mul F (max (d - due_date (loan_objects m ! la)) 0) (fine_per_day m))\<rparr>,
             m\<lparr>loan_objects := (loan_objects m)
                 [la := (loan_objects m ! la)\<lparr>returned_date := Some d\<rparr>],
               book_objects := (book_objects m)
                 [ba := (book_objects m ! ba)
                    \<lparr>available_copies := available_copies (book_objects m ! ba) + 1\<rparr>],
               active_loans := AList.delete (strip b, strip r) (active_loans m)\<rparr>)))"
proof (cases "map_of (active_loans m) (strip b, strip r)")
  case None
  then show ?thesis by (simp add: return_book_cases)
next
  case (Some la)
  then have mem: "((strip b, strip r), la) \<in> set (active_loans m)"
    using wf_loan_lookup [OF wf] by simp
  have lt: "la < length (loan_objects m)" by (rule wf_loan_lt [OF wf mem])
  have key: "Loan.book_id (loan_objects m ! la) = strip b"
    using wf_loan_key [OF wf mem] by simp
  obtain ba where ba: "map_of (books m) (strip b) = Some ba"
    using wf_loan_book [OF wf mem] by auto
  show ?thesis using Some lt key ba by (simp add: return_book_cases Let_def)
qed

lemma return_book_no_KeyError:
  assumes wf: "wf m"
  shows "fst (return_book F b r d m) \<noteq> Inl KeyError"
proof (cases "map_of (active_loans m) (strip b, strip r)")
  case None
  then show ?thesis by (simp add: return_book_wf_cases [OF wf])
next
  case (Some la)
  then have mem: "((strip b, strip r), la) \<in> set (active_loans m)"
    using wf_loan_lookup [OF wf] by simp
  obtain ba where ba: "map_of (books m) (strip b) = Some ba"
    using wf_loan_book [OF wf mem] by auto
  show ?thesis using Some ba by (simp add: return_book_wf_cases [OF wf])
qed

lemma wf_return_book:
  assumes wf: "wf m" shows "wf (snd (return_book F b r d m))"
proof (cases "fst (return_book F b r d m)")
  case (Inl e)
  then have "snd (return_book F b r d m) = m"
    using return_book_no_KeyError [OF wf, of F b r d]
    by (auto simp: return_book_wf_cases [OF wf] split: if_splits option.splits)
  then show ?thesis using wf by simp
next
  case (Inr x)
  then obtain la ba where la: "map_of (active_loans m) (strip b, strip r) = Some la"
    and ba: "map_of (books m) (strip b) = Some ba"
    and st: "snd (return_book F b r d m) =
       m\<lparr>loan_objects := (loan_objects m)
                 [la := (loan_objects m ! la)\<lparr>returned_date := Some d\<rparr>],
               book_objects := (book_objects m)
                 [ba := (book_objects m ! ba)
                    \<lparr>available_copies := available_copies (book_objects m ! ba) + 1\<rparr>],
               active_loans := AList.delete (strip b, strip r) (active_loans m)\<rparr>"
    by (simp add: return_book_wf_cases [OF wf] split: if_splits option.splits)
  from la have mem: "((strip b, strip r), la) \<in> set (active_loans m)"
    using wf_loan_lookup [OF wf] by simp
  from ba have "(fst (strip b, strip r), ba) \<in> set (books m)"
    using wf_book_lookup [OF wf] by simp
  from wf_return_state [OF wf mem this] show ?thesis by (simp add: st)
qed

lemma search_books_state: "snd (search_books F q m) = m"
  by (simp add: search_books_def Let_def split: sum.splits)

lemma get_book_state: "snd (get_book b m) = m"
  by (simp add: get_book_cases split: option.splits)

lemma get_reader_state: "snd (get_reader r m) = m"
  by (simp add: get_reader_cases split: option.splits)

lemma get_reader_active_loans_state: "snd (get_reader_active_loans r m) = m"
  by (simp add: get_reader_active_loans_def get_reader_cases split: sum.splits option.splits)

lemma wf_step: "wf m \<Longrightarrow> wf (step F m x)"
  by (cases x)
    (simp_all add: wf_add_book wf_register_reader wf_borrow_book wf_return_book
      search_books_state get_book_state get_reader_state get_reader_active_loans_state
      calculate_fine_def get_active_loans_def get_loan_history_def Let_def)

lemma wf_run: "wf m \<Longrightarrow> wf (run F m ops)"
  unfolding run_def by (induction ops arbitrary: m) (simp_all add: wf_step)

lemma wf_reachable: "wf (run F (fresh fpd) ops)"
  by (rule wf_run [OF wf_fresh])

section \<open>Strings\<close>

lemma lit_eq [simp]: "lit a = lit b \<longleftrightarrow> a = b"
proof -
  have "inj (of_char :: char \<Rightarrow> nat)" by (rule injI) simp
  then show ?thesis unfolding lit_def by (rule inj_map_eq_map)
qed

lemma lit_Nil [simp]: "lit s = [] \<longleftrightarrow> s = []" "[] = lit s \<longleftrightarrow> s = []"
  by (auto simp: lit_def)

lemma strip_values:
  "strip (lit ''B1'') = lit ''B1''" "strip (lit ''B2'') = lit ''B2''"
  "strip (lit ''R1'') = lit ''R1''" "strip (lit ''R2'') = lit ''R2''"
  "strip (lit '' R1 '') = lit ''R1''" "strip (lit ''   '') = []"
  "strip (lit ''Clean Code'') = lit ''Clean Code''"
  "strip (lit ''Robert Martin'') = lit ''Robert Martin''"
  "strip (lit ''The Pragmatic Programmer'') = lit ''The Pragmatic Programmer''"
  "strip (lit ''Andrew Hunt'') = lit ''Andrew Hunt''"
  "strip (lit ''Ivan Petrov'') = lit ''Ivan Petrov''"
  "strip (lit ''Anna Sidorova'') = lit ''Anna Sidorova''"
  "strip (lit ''prAgMaTic'') = lit ''prAgMaTic''"
  "strip (lit '' martin '') = lit ''martin''"
  "strip (lit ''G1'') = lit ''G1''" "strip (lit ''Anon'') = lit ''Anon''"
  "strip odos_title = odos_title" "strip odos_query = odos_query"
  by (simp_all add: lit_def strip_def isspace_def odos_title_def odos_query_def)

lemma last_dropWhile: "dropWhile P xs \<noteq> [] \<Longrightarrow> last (dropWhile P xs) = last xs"
  by (induction xs) (auto split: if_splits)

lemma strip_no_lead: "dropWhile isspace (strip s) = strip s"
proof (cases "strip s = []")
  case True
  then show ?thesis by simp
next
  case False
  define t where "t = dropWhile isspace s"
  have ne: "dropWhile isspace (rev t) \<noteq> []" using False by (simp add: strip_def t_def)
  then have tne: "t \<noteq> []" by auto
  have "hd (strip s) = last (dropWhile isspace (rev t))"
    using ne by (simp add: strip_def t_def hd_rev)
  also have "\<dots> = last (rev t)" by (rule last_dropWhile [OF ne])
  also have "\<dots> = hd t" using tne by (simp add: last_rev)
  finally have "hd (strip s) = hd t" .
  moreover have "\<not> isspace (hd t)" using tne unfolding t_def by (rule hd_dropWhile)
  ultimately show ?thesis using False by (simp add: dropWhile_eq_self_iff)
qed

lemma strip_idem: "strip (strip s) = strip s"
proof -
  have "strip (strip s) = rev (dropWhile isspace (rev (strip s)))"
    by (simp add: strip_def [of "strip s"] strip_no_lead)
  also have "\<dots> = strip s" by (simp add: strip_def)
  finally show ?thesis .
qed








section \<open>What a call leaves unchanged\<close>





lemma add_book_active: "active_loans (snd (add_book b t a n m)) = active_loans m"
  by (simp add: add_book_cases)

lemma add_book_loans: "loan_objects (snd (add_book b t a n m)) = loan_objects m"
  by (simp add: add_book_cases)

lemma register_reader_active: "active_loans (snd (register_reader r n m)) = active_loans m"
  by (simp add: register_reader_cases)

lemma register_reader_loans: "loan_objects (snd (register_reader r n m)) = loan_objects m"
  by (simp add: register_reader_cases)

lemma calculate_fine_state: "snd (calculate_fine F d r m) = m"
  by (simp add: calculate_fine_def Let_def)

lemma map_of_delete_None: "map_of al k = None \<Longrightarrow> map_of (AList.delete k' al) k = None"
  by (simp add: delete_conv)

lemma key_absent_step:
  assumes wf: "wf m"
    and none: "map_of (active_loans m) (strip b, strip r) = None"
    and nb: "\<not> borrows_pair b r x"
  shows "map_of (active_loans (step F m x)) (strip b, strip r) = None"
proof (cases x)
  case (BorrowBook b' r' d n)
  have "(strip b', r') \<noteq> (strip b, strip r)"
  proof
    assume eq: "(strip b', r') = (strip b, strip r)"
    then have "strip r' = strip r" by (simp add: strip_idem)
    then show False using nb eq BorrowBook by simp
  qed
  then show ?thesis using none BorrowBook
    by (auto simp: borrow_book_wf_cases [OF wf] map_add_def split: option.splits)
next
  case (ReturnBook b' r' d)
  then show ?thesis using none map_of_delete_None [OF none]
    by (auto simp: return_book_wf_cases [OF wf] split: option.splits)
qed (simp_all add: none add_book_active register_reader_active get_book_state get_reader_state
      search_books_state calculate_fine_state get_active_loans_def
      get_reader_active_loans_state get_loan_history_def)

lemma key_absent_run:
  assumes "wf m"
    and "map_of (active_loans m) (strip b, strip r) = None"
    and "\<forall>x \<in> set ops. \<not> borrows_pair b r x"
  shows "map_of (active_loans (run F m ops)) (strip b, strip r) = None"
  using assms
proof (induction ops arbitrary: m)
  case Nil
  then show ?case by (simp add: run_def)
next
  case (Cons x ops)
  have "map_of (active_loans (run F (step F m x) ops)) (strip b, strip r) = None"
  proof (rule Cons.IH)
    show "wf (step F m x)" by (rule wf_step [OF Cons.prems(1)])
    show "map_of (active_loans (step F m x)) (strip b, strip r) = None"
      using Cons.prems by (intro key_absent_step) simp_all
    show "\<forall>x \<in> set ops. \<not> borrows_pair b r x" using Cons.prems(3) by simp
  qed
  then show ?case by (simp add: run_def)
qed

lemma returned_stays_step:
  assumes wf: "wf m"
    and lt: "a < length (loan_objects m)"
    and ret: "returned_date (loan_objects m ! a) = Some x"
  shows "a < length (loan_objects (step F m c)) \<and>
         returned_date (loan_objects (step F m c) ! a) = Some x"
proof (cases c)
  case (BorrowBook b r d n)
  then show ?thesis using lt ret
    by (auto simp: borrow_book_wf_cases [OF wf] nth_append split: option.splits)
next
  case (ReturnBook b r d)
  show ?thesis
  proof (cases "map_of (active_loans m) (strip b, strip r)")
    case None
    then show ?thesis using lt ret ReturnBook by (simp add: return_book_wf_cases [OF wf])
  next
    case (Some la)
    then have mem: "((strip b, strip r), la) \<in> set (active_loans m)"
      using wf_loan_lookup [OF wf] by simp
    have "la \<noteq> a" using wf_loan_active [OF wf mem] ret by auto
    then show ?thesis using lt ret ReturnBook Some
      by (auto simp: return_book_wf_cases [OF wf] split: option.splits)
  qed
qed (simp_all add: lt ret add_book_loans register_reader_loans get_book_state get_reader_state
      search_books_state calculate_fine_state get_active_loans_def
      get_reader_active_loans_state get_loan_history_def)

lemma returned_stays_run:
  assumes "wf m"
    and "a < length (loan_objects m)"
    and "returned_date (loan_objects m ! a) = Some x"
  shows "a < length (loan_objects (run F m ops)) \<and>
         returned_date (loan_objects (run F m ops) ! a) = Some x"
  using assms
proof (induction ops arbitrary: m)
  case Nil
  then show ?case by (simp add: run_def)
next
  case (Cons c ops)
  have s: "a < length (loan_objects (step F m c)) \<and>
         returned_date (loan_objects (step F m c) ! a) = Some x"
    by (rule returned_stays_step [OF Cons.prems])
  have "a < length (loan_objects (run F (step F m c) ops)) \<and>
         returned_date (loan_objects (run F (step F m c) ops) ! a) = Some x"
    using s by (intro Cons.IH wf_step [OF Cons.prems(1)]) simp_all
  then show ?case by (simp add: run_def)
qed

section \<open>A loan borrowed and returned\<close>

lemma borrow_then_return:
  assumes wf: "wf m"
    and trimmed: "strip r = r"
    and borrow: "fst (borrow_book b r d n m) = Inr a"
  shows "\<exists>res. fst (return_book F b r d2 (snd (borrow_book b r d n m))) = Inr res"
    and "book_objects (snd (return_book F b r d2 (snd (borrow_book b r d n m)))) = book_objects m"
    and "active_loans (snd (return_book F b r d2 (snd (borrow_book b r d n m)))) = active_loans m"
    and "loan_history (snd (return_book F b r d2 (snd (borrow_book b r d n m))))
           = loan_history m @ [a]"
    and "loan_objects (snd (return_book F b r d2 (snd (borrow_book b r d n m)))) ! a
           = \<lparr>Loan.book_id = strip b, reader_id = r, borrow_date = d, due_date = d + n,
              returned_date = Some d2\<rparr>"
proof -
  define m1 where "m1 = snd (borrow_book b r d n m)"
  have wf1: "wf m1" unfolding m1_def by (rule wf_borrow_book [OF wf])
  from borrow obtain ba where ba: "map_of (books m) (strip b) = Some ba"
    and ne: "strip b \<noteq> []" "strip r \<noteq> []"
    and nk: "map_of (active_loans m) (strip b, r) = None"
    and a: "a = length (loan_objects m)"
    and m1: "m1 = m\<lparr>loan_objects := loan_objects m @
                   [\<lparr>Loan.book_id = strip b, reader_id = r,
                     borrow_date = d, due_date = d + n, returned_date = None\<rparr>],
                 active_loans := active_loans m @ [((strip b, r), length (loan_objects m))],
                 loan_history := loan_history m @ [length (loan_objects m)],
                 book_objects := (book_objects m)
                   [ba := (book_objects m ! ba)
                      \<lparr>available_copies := available_copies (book_objects m ! ba) - 1\<rparr>]\<rparr>"
    unfolding m1_def
    by (auto simp: borrow_book_wf_cases [OF wf] split: if_splits option.splits)
  have blt: "ba < length (book_objects m)"
    using wf_book_addr_lt [OF wf] ba wf_book_lookup [OF wf] by blast
  have key: "map_of (active_loans m1) (strip b, strip r) = Some a"
    using nk by (simp add: m1 a trimmed map_add_def)
  have bk1: "map_of (books m1) (strip b) = Some ba" using ba by (simp add: m1)
  have del: "AList.delete (strip b, r) (active_loans m @ [((strip b, r), a)]) = active_loans m"
  proof -
    have "(strip b, r) \<notin> fst ` set (active_loans m)" using nk by (simp add: map_of_eq_None_iff)
    then have "filter (\<lambda>e. fst e \<noteq> (strip b, r)) (active_loans m) = active_loans m"
      by (simp add: filter_id_conv) force
    then show ?thesis by (simp add: delete_filter)
  qed
  have upd: "(book_objects m1)
                 [ba := (book_objects m1 ! ba)
                    \<lparr>available_copies := available_copies (book_objects m1 ! ba) + 1\<rparr>]
             = book_objects m"
    using blt by (simp add: m1 list_update_same_conv)
  have m2: "return_book F b r d2 m1 =
            (Inr \<lparr>overdue_days = max (d2 - due_date (loan_objects m1 ! a)) 0,
                  fine_amount = flt_round2 F
                    (flt_mul F (max (d2 - due_date (loan_objects m1 ! a)) 0) (fine_per_day m1))\<rparr>,
             m1\<lparr>loan_objects := (loan_objects m1)
                 [a := (loan_objects m1 ! a)\<lparr>returned_date := Some d2\<rparr>],
               book_objects := (book_objects m1)
                 [ba := (book_objects m1 ! ba)
                    \<lparr>available_copies := available_copies (book_objects m1 ! ba) + 1\<rparr>],
               active_loans := AList.delete (strip b, strip r) (active_loans m1)\<rparr>)"
    using ne key bk1 by (simp add: return_book_wf_cases [OF wf1])
  show "\<exists>res. fst (return_book F b r d2 (snd (borrow_book b r d n m))) = Inr res"
    using m2 by (simp add: m1_def)
  show "book_objects (snd (return_book F b r d2 (snd (borrow_book b r d n m)))) = book_objects m"
    using m2 upd unfolding m1_def [symmetric] by simp
  show "active_loans (snd (return_book F b r d2 (snd (borrow_book b r d n m)))) = active_loans m"
    using del unfolding m1_def [symmetric] m2 by (simp add: trimmed) (simp add: m1 a)
  show "loan_history (snd (return_book F b r d2 (snd (borrow_book b r d n m))))
           = loan_history m @ [a]"
    unfolding m1_def [symmetric] m2 by (simp add: m1 a)
  show "loan_objects (snd (return_book F b r d2 (snd (borrow_book b r d n m)))) ! a
           = \<lparr>Loan.book_id = strip b, reader_id = r, borrow_date = d, due_date = d + n,
              returned_date = Some d2\<rparr>"
    unfolding m1_def [symmetric] m2 by (simp add: m1 a)
qed

lemma return_book_fine:
  assumes wf: "wf m" and ok: "fst (return_book F b r d m) = Inr res"
  shows "\<exists>la. map_of (active_loans m) (strip b, strip r) = Some la \<and>
     overdue_days res = max (days_between d (due_date (loan_objects m ! la))) 0 \<and>
     Inr (fine_amount res) = fst (calculate_fine F (due_date (loan_objects m ! la)) d m)"
  using ok
  by (auto simp: return_book_wf_cases [OF wf] calculate_fine_def days_between_def Let_def
      split: if_splits option.splits)

section \<open>The runtime of the examples, evaluated\<close>

lemma to_double_values:
  "to_double 0 = Fin 0" "to_double 3 = Fin 3" "to_double 10 = Fin 10"
  "to_double 30 = Fin 30" "to_double 100 = Fin 100"
  by (simp_all add: to_double_def floor_log2_def pow2_def round_half_even_def
      bit_length.simps Let_def)

lemma py_fines:
  "flt_round2 py (flt_mul py 0 (Fin q)) = Fin 0"
  "flt_round2 py (flt_mul py 3 (Fin 10)) = Fin 30"
  "flt_round2 py (flt_mul py 10 (Fin 10)) = Fin 100"
  by (simp_all add: py_def py_mul_def to_double_values round_half_even_def)

lemma py_fine_not_finite:
  "flt_round2 py (flt_mul py 0 PInf) = NaN" "flt_round2 py (flt_mul py 0 NaN) = NaN"
  by (simp_all add: py_def py_mul_def to_double_values)


section \<open>The managers of the examples, evaluated\<close>

lemma setUp_value:
  "setUp =
    \<lparr>fine_per_day = Fin 10, books = [(lit ''B1'', 0), (lit ''B2'', 1)],
     readers =
       [(lit ''R1'', \<lparr>Reader.reader_id = lit ''R1'', full_name = lit ''Ivan Petrov''\<rparr>),
        (lit ''R2'', \<lparr>Reader.reader_id = lit ''R2'', full_name = lit ''Anna Sidorova''\<rparr>)],
     active_loans = [], loan_history = [],
     book_objects =
       [\<lparr>Book.book_id = lit ''B1'', title = lit ''Clean Code'', author = lit ''Robert Martin'',
         total_copies = 2, available_copies = 2\<rparr>,
        \<lparr>Book.book_id = lit ''B2'', title = lit ''The Pragmatic Programmer'', author = lit ''Andrew Hunt'',
         total_copies = 1, available_copies = 1\<rparr>],
     loan_objects = []\<rparr>"
  by (simp add: setUp_def setUp_ops_def run_def fresh_def add_book_cases register_reader_cases
      strip_values)

lemma borrowed_value:
  "borrowed =
    \<lparr>fine_per_day = Fin 10, books = [(lit ''B1'', 0), (lit ''B2'', 1)],
     readers =
       [(lit ''R1'', \<lparr>Reader.reader_id = lit ''R1'', full_name = lit ''Ivan Petrov''\<rparr>),
        (lit ''R2'', \<lparr>Reader.reader_id = lit ''R2'', full_name = lit ''Anna Sidorova''\<rparr>)],
     active_loans = [((lit ''B1'', lit ''R1''), 0)], loan_history = [0],
     book_objects =
       [\<lparr>Book.book_id = lit ''B1'', title = lit ''Clean Code'', author = lit ''Robert Martin'',
         total_copies = 2, available_copies = 1\<rparr>,
        \<lparr>Book.book_id = lit ''B2'', title = lit ''The Pragmatic Programmer'', author = lit ''Andrew Hunt'',
         total_copies = 1, available_copies = 1\<rparr>],
     loan_objects =
       [\<lparr>Loan.book_id = lit ''B1'', reader_id = lit ''R1'', borrow_date = 739676,
         due_date = 739690, returned_date = None\<rparr>]\<rparr>"
proof -
  have "borrowed = snd (borrow_book (lit ''B1'') (lit ''R1'') 739676 14 setUp)"
    by (simp add: borrowed_def setUp_def run_def)
  then show ?thesis
    by (simp add: setUp_value borrow_book_cases strip_values MAXORDINAL_def)
qed


lemma return_borrowed_value:
  "return_book py (lit ''B1'') (lit ''R1'') 739700 borrowed =
     (Inr \<lparr>overdue_days = 10, fine_amount = Fin 100\<rparr>,
      \<lparr>fine_per_day = Fin 10, books = [(lit ''B1'', 0), (lit ''B2'', 1)],
       readers =
         [(lit ''R1'', \<lparr>Reader.reader_id = lit ''R1'', full_name = lit ''Ivan Petrov''\<rparr>),
          (lit ''R2'', \<lparr>Reader.reader_id = lit ''R2'', full_name = lit ''Anna Sidorova''\<rparr>)],
       active_loans = [], loan_history = [0],
       book_objects =
         [\<lparr>Book.book_id = lit ''B1'', title = lit ''Clean Code'', author = lit ''Robert Martin'',
           total_copies = 2, available_copies = 2\<rparr>,
          \<lparr>Book.book_id = lit ''B2'', title = lit ''The Pragmatic Programmer'', author = lit ''Andrew Hunt'',
           total_copies = 1, available_copies = 1\<rparr>],
       loan_objects =
         [\<lparr>Loan.book_id = lit ''B1'', reader_id = lit ''R1'', borrow_date = 739676,
           due_date = 739690, returned_date = Some 739700\<rparr>]\<rparr>)"
  by (simp add: borrowed_value return_book_cases strip_values py_fines)

lemma padded_borrow_value:
  "borrow_book (lit ''B1'') (lit '' R1 '') 739676 14 setUp =
    (Inr 0,
    \<lparr>fine_per_day = Fin 10, books = [(lit ''B1'', 0), (lit ''B2'', 1)],
     readers =
       [(lit ''R1'', \<lparr>Reader.reader_id = lit ''R1'', full_name = lit ''Ivan Petrov''\<rparr>),
        (lit ''R2'', \<lparr>Reader.reader_id = lit ''R2'', full_name = lit ''Anna Sidorova''\<rparr>)],
     active_loans = [((lit ''B1'', lit '' R1 ''), 0)], loan_history = [0],
     book_objects =
       [\<lparr>Book.book_id = lit ''B1'', title = lit ''Clean Code'', author = lit ''Robert Martin'',
         total_copies = 2, available_copies = 1\<rparr>,
        \<lparr>Book.book_id = lit ''B2'', title = lit ''The Pragmatic Programmer'', author = lit ''Andrew Hunt'',
         total_copies = 1, available_copies = 1\<rparr>],
     loan_objects =
       [\<lparr>Loan.book_id = lit ''B1'', reader_id = lit '' R1 '', borrow_date = 739676,
         due_date = 739690, returned_date = None\<rparr>]\<rparr>)"
  by (simp add: setUp_value borrow_book_cases strip_values MAXORDINAL_def)

lemma both_borrowed_value:
  "borrow_book (lit ''B1'') (lit '' R1 '') 739677 14 borrowed =
    (Inr 1,
    \<lparr>fine_per_day = Fin 10, books = [(lit ''B1'', 0), (lit ''B2'', 1)],
     readers =
       [(lit ''R1'', \<lparr>Reader.reader_id = lit ''R1'', full_name = lit ''Ivan Petrov''\<rparr>),
        (lit ''R2'', \<lparr>Reader.reader_id = lit ''R2'', full_name = lit ''Anna Sidorova''\<rparr>)],
     active_loans = [((lit ''B1'', lit ''R1''), 0), ((lit ''B1'', lit '' R1 ''), 1)], loan_history = [0, 1],
     book_objects =
       [\<lparr>Book.book_id = lit ''B1'', title = lit ''Clean Code'', author = lit ''Robert Martin'',
         total_copies = 2, available_copies = 0\<rparr>,
        \<lparr>Book.book_id = lit ''B2'', title = lit ''The Pragmatic Programmer'', author = lit ''Andrew Hunt'',
         total_copies = 1, available_copies = 1\<rparr>],
     loan_objects =
       [\<lparr>Loan.book_id = lit ''B1'', reader_id = lit ''R1'', borrow_date = 739676,
         due_date = 739690, returned_date = None\<rparr>,
        \<lparr>Loan.book_id = lit ''B1'', reader_id = lit '' R1 '', borrow_date = 739677,
         due_date = 739691, returned_date = None\<rparr>]\<rparr>)"
  by (simp add: borrowed_value borrow_book_cases strip_values MAXORDINAL_def)

lemma both_returned_value:
  "return_book py (lit ''B1'') (lit '' R1 '') 739680 both_borrowed =
    (Inr \<lparr>overdue_days = 0, fine_amount = Fin 0\<rparr>,
    \<lparr>fine_per_day = Fin 10, books = [(lit ''B1'', 0), (lit ''B2'', 1)],
     readers =
       [(lit ''R1'', \<lparr>Reader.reader_id = lit ''R1'', full_name = lit ''Ivan Petrov''\<rparr>),
        (lit ''R2'', \<lparr>Reader.reader_id = lit ''R2'', full_name = lit ''Anna Sidorova''\<rparr>)],
     active_loans = [((lit ''B1'', lit '' R1 ''), 1)], loan_history = [0, 1],
     book_objects =
       [\<lparr>Book.book_id = lit ''B1'', title = lit ''Clean Code'', author = lit ''Robert Martin'',
         total_copies = 2, available_copies = 1\<rparr>,
        \<lparr>Book.book_id = lit ''B2'', title = lit ''The Pragmatic Programmer'', author = lit ''Andrew Hunt'',
         total_copies = 1, available_copies = 1\<rparr>],
     loan_objects =
       [\<lparr>Loan.book_id = lit ''B1'', reader_id = lit ''R1'', borrow_date = 739676,
         due_date = 739690, returned_date = Some 739680\<rparr>,
        \<lparr>Loan.book_id = lit ''B1'', reader_id = lit '' R1 '', borrow_date = 739677,
         due_date = 739691, returned_date = None\<rparr>]\<rparr>)"
  by (simp add: both_borrowed_def both_borrowed_value return_book_cases strip_values
      py_fines)

section \<open>The properties\<close>

lemma loans_of_by_object:
  assumes "wf m"
  shows "loans_of k (active_loans m) = length (active_loans_of_book m k)"
proof -
  have "filter (\<lambda>e. fst (fst e) = k) (active_loans m)
      = filter (\<lambda>e. Loan.book_id (loan_objects m ! snd e) = k) (active_loans m)"
  proof (rule filter_cong [OF refl])
    fix e assume "e \<in> set (active_loans m)"
    then have "(fst e, snd e) \<in> set (active_loans m)" by simp
    from wf_loan_key [OF assms this]
    show "(fst (fst e) = k) = (Loan.book_id (loan_objects m ! snd e) = k)"
      by (metis fst_conv)
  qed
  then show ?thesis
    by (simp add: loans_of_def active_loans_of_book_def active_loan_objects_def
        filter_map comp_def)
qed

text \<open>
  C1, as the code has it. \<open>borrow_book\<close> checks in this order and raises at the first
  failure: \<open>loan_days <= 0\<close> gives \<open>ValidationError\<close>; a book id that is empty after
  trimming gives \<open>ValidationError\<close>; a trimmed book id that is absent gives
  \<open>NotFoundError\<close>; a reader id that is empty after trimming gives \<open>ValidationError\<close>; a
  trimmed reader id that is absent gives \<open>NotFoundError\<close>; no available copy gives
  \<open>BusinessRuleError\<close>. Then, for a reader id without surrounding whitespace: an active loan
  of the (book id, reader id) pair gives \<open>BusinessRuleError\<close>; a due date after
  \<open>date.max\<close> gives \<open>OverflowError\<close> and leaves the manager as it was; otherwise the call
  returns the created loan, whose due date is \<open>borrow_date + loan_days\<close> days.
\<close>

theorem borrow_book_check_order:
  assumes reach: "m = run F (fresh fpd) ops" and date: "valid_date d"
  shows
    "(let res = fst (borrow_book b r d n m); m' = snd (borrow_book b r d n m)
      in if n \<le> 0 then res = Inl ValidationError
         else if strip b = [] then res = Inl ValidationError
         else case map_of (books m) (strip b) of
           None \<Rightarrow> res = Inl NotFoundError
         | Some a \<Rightarrow>
            (if strip r = [] then res = Inl ValidationError
             else if map_of (readers m) (strip r) = None then res = Inl NotFoundError
             else if available_copies (book_objects m ! a) \<le> 0 then res = Inl BusinessRuleError
             else strip r = r \<longrightarrow>
               (if map_of (active_loans m) (strip b, strip r) \<noteq> None
                  then res = Inl BusinessRuleError
                else if MAXORDINAL < d + n then res = Inl OverflowError \<and> m' = m
                else res = Inr (length (loan_objects m)) \<and>
                     loan_objects m' ! length (loan_objects m) =
                       \<lparr>Loan.book_id = strip b, reader_id = strip r, borrow_date = d,
                        due_date = d + n, returned_date = None\<rparr>)))"
proof -
  have wf: "wf m" unfolding reach by (rule wf_reachable)
  have d1: "1 \<le> d" using date by (simp add: valid_date_def)
  have big: "MAXORDINAL < d + n" if "999999999 < n"
    using that d1 by (simp add: MAXORDINAL_def)
  show ?thesis
  proof (cases "n \<le> 0")
    case True
    then show ?thesis by (simp add: borrow_book_wf_cases [OF wf])
  next
    case False
    then have pos: "0 < d + n" using d1 by simp
    show ?thesis using False pos big
      by (auto simp: borrow_book_wf_cases [OF wf] Let_def split: option.splits)
  qed
qed

text \<open>
  The theorem at \<open>borrow_book("B1", "R1", date(2026, 3, 1), 14)\<close> on the manager of
  \<open>setUp\<close>.
\<close>

theorem borrow_book_check_order_witness:
  "valid_date 739676 \<and> strip (lit ''R1'') = lit ''R1'' \<and>
   fst (borrow_book (lit ''B1'') (lit ''R1'') 739676 14 setUp) = Inr 0 \<and>
   loan_objects (snd (borrow_book (lit ''B1'') (lit ''R1'') 739676 14 setUp)) ! 0 =
     \<lparr>Loan.book_id = lit ''B1'', reader_id = lit ''R1'', borrow_date = 739676,
      due_date = 739690, returned_date = None\<rparr>"
proof -
  have vd: "valid_date 739676" by (simp add: valid_date_def MAXORDINAL_def)
  from borrow_book_check_order [OF setUp_def vd, where n = 14 and b = "lit ''B1''" and r = "lit ''R1''"]
  show ?thesis using vd
    by (simp add: Let_def strip_values setUp_value MAXORDINAL_def)
qed

text \<open>
  C1 as stated fails twice on the manager of \<open>setUp\<close>. With \<open>loan_days = 14\<close> and the book
  id \<open>"   "\<close>, which no book has, the call raises \<open>ValidationError\<close>, not
  \<open>NotFoundError\<close>. With every listed precondition met and \<open>loan_days = 4000000\<close>, the call
  raises \<open>OverflowError\<close> and creates no loan.
\<close>

theorem borrow_book_check_order_counterexample:
  "0 < (14::int) \<and> map_of (books setUp) (lit ''   '') = None \<and>
   map_of (books setUp) (strip (lit ''   '')) = None \<and>
   fst (borrow_book (lit ''   '') (lit ''R1'') 739676 14 setUp) = Inl ValidationError \<and>
   valid_date 739676 \<and> 0 < (4000000::int) \<and>
   map_of (books setUp) (lit ''B1'') = Some 0 \<and>
   map_of (readers setUp) (lit ''R1'') \<noteq> None \<and>
   0 < available_copies (book_objects setUp ! 0) \<and>
   active_loans setUp = [] \<and>
   fst (borrow_book (lit ''B1'') (lit ''R1'') 739676 4000000 setUp) = Inl OverflowError"
  by (simp add: setUp_value borrow_book_cases strip_values valid_date_def MAXORDINAL_def)

text \<open>
  C2. The code at \<open>borrow_book("B1", " R1 ", date(2026, 3, 1))\<close> on the manager of
  \<open>setUp\<close>: the call succeeds and stores the loan under the reader id as passed,
  \<open>" R1 "\<close>; \<open>return_book\<close> then finds no active loan, with the trimmed id and with the
  padded one alike, and \<open>get_reader_active_loans("R1")\<close> is empty although one loan is
  active.
\<close>

theorem padded_reader_id_loan_is_lost:
  "fst (borrow_book (lit ''B1'') (lit '' R1 '') 739676 14 setUp) = Inr 0 \<and>
   strip (lit '' R1 '') = lit ''R1'' \<and>
   active_loans padded_borrow = [((lit ''B1'', lit '' R1 ''), 0)] \<and>
   fst (return_book py (lit ''B1'') (lit ''R1'') 739680 padded_borrow) = Inl BusinessRuleError \<and>
   fst (return_book py (lit ''B1'') (lit '' R1 '') 739680 padded_borrow) = Inl BusinessRuleError \<and>
   fst (get_reader_active_loans (lit ''R1'') padded_borrow) = Inr [] \<and>
   fst (get_active_loans padded_borrow) = Inr [0]"
  by (simp add: padded_borrow_def padded_borrow_value return_book_cases strip_values
      get_reader_active_loans_def get_reader_cases require_non_empty_def get_active_loans_def)

text \<open>
  C3. The code on the manager of \<open>setUp\<close>: \<open>borrow_book("B1", "R1", ...)\<close> and then
  \<open>borrow_book("B1", " R1 ", ...)\<close> both succeed, and the pair \<open>("B1", "R1")\<close>, ids compared
  after trimming, has two active loans.
\<close>

theorem two_active_loans_for_one_pair:
  "fst (borrow_book (lit ''B1'') (lit ''R1'') 739676 14 setUp) = Inr 0 \<and>
   borrowed = snd (borrow_book (lit ''B1'') (lit ''R1'') 739676 14 setUp) \<and>
   fst (borrow_book (lit ''B1'') (lit '' R1 '') 739677 14 borrowed) = Inr 1 \<and>
   length (active_loans_of_pair both_borrowed (lit ''B1'') (lit ''R1'')) = 2"
proof (intro conjI)
  show "borrowed = snd (borrow_book (lit ''B1'') (lit ''R1'') 739676 14 setUp)"
    by (simp add: borrowed_def setUp_def run_def)
  show "fst (borrow_book (lit ''B1'') (lit ''R1'') 739676 14 setUp) = Inr 0"
    by (simp add: setUp_value borrow_book_cases strip_values MAXORDINAL_def)
  show "fst (borrow_book (lit ''B1'') (lit '' R1 '') 739677 14 borrowed) = Inr 1"
    by (simp add: both_borrowed_value)
  show "length (active_loans_of_pair both_borrowed (lit ''B1'') (lit ''R1'')) = 2"
    by (simp add: both_borrowed_def both_borrowed_value active_loans_of_pair_def
        active_loan_objects_def strip_values)
qed

text \<open>
  C4. Every book stored in the manager has between 0 and \<open>total_copies\<close> available
  copies, after any sequence of public calls on a fresh manager.
\<close>

theorem available_copies_bounds:
  "\<forall>bk \<in> set (stored_books (run F (fresh fpd) ops)).
     0 \<le> available_copies bk \<and> available_copies bk \<le> total_copies bk"
proof
  fix bk
  let ?m = "run F (fresh fpd) ops"
  assume "bk \<in> set (stored_books ?m)"
  then obtain e where e: "e \<in> set (books ?m)" and bk: "bk = book_objects ?m ! snd e"
    by (auto simp: stored_books_def)
  have wf: "wf ?m" by (rule wf_reachable)
  from e have mem: "(fst e, snd e) \<in> set (books ?m)" by simp
  from wf_avail [OF wf mem] wf_count [OF wf mem] show
    "0 \<le> available_copies bk \<and> available_copies bk \<le> total_copies bk"
    by (simp add: bk)
qed

theorem available_copies_bounds_witness:
  "\<lparr>Book.book_id = lit ''B1'', title = lit ''Clean Code'', author = lit ''Robert Martin'',
     total_copies = 2, available_copies = 1\<rparr> \<in> set (stored_books borrowed)
   \<and> (0::int) \<le> 1 \<and> (1::int) \<le> 2"
proof -
  let ?bk = "\<lparr>Book.book_id = lit ''B1'', title = lit ''Clean Code'', author = lit ''Robert Martin'',
     total_copies = 2, available_copies = 1\<rparr>"
  have mem: "?bk \<in> set (stored_books borrowed)"
    by (simp add: borrowed_value stored_books_def)
  then have "?bk \<in> set (stored_books (run py (fresh (Fin 10))
                (setUp_ops @ [BorrowBook (lit ''B1'') (lit ''R1'') 739676 14])))"
    by (simp add: borrowed_def)
  from bspec [OF available_copies_bounds this] mem show ?thesis by simp
qed

text \<open>
  C5. The code on the manager \<open>borrowed\<close>, where reader \<open>R1\<close> holds book \<open>B1\<close>:
  \<open>borrow_book("B1", " R1 ", date(2026, 3, 2))\<close> succeeds and
  \<open>return_book("B1", " R1 ", date(2026, 3, 5))\<close> succeeds. The available copies are as before
  the borrow, but the pair \<open>("B1", " R1 ")\<close> is still in the active-loan index and the loan
  the borrow created has no return date: the call returned the older loan.
\<close>

theorem padded_round_trip_returns_other_loan:
  "available_copies (book_objects borrowed ! 0) = 1 \<and>
   fst (borrow_book (lit ''B1'') (lit '' R1 '') 739677 14 borrowed) = Inr 1 \<and>
   fst (return_book py (lit ''B1'') (lit '' R1 '') 739680 both_borrowed)
     = Inr \<lparr>overdue_days = 0, fine_amount = Fin 0\<rparr> \<and>
   available_copies (book_objects both_returned ! 0) = 1 \<and>
   map_of (active_loans both_returned) (lit ''B1'', lit '' R1 '') = Some 1 \<and>
   loan_history both_returned = [0, 1] \<and>
   returned_date (loan_objects both_returned ! 1) = None \<and>
   returned_date (loan_objects both_returned ! 0) = Some 739680"
proof (intro conjI)
  show "available_copies (book_objects borrowed ! 0) = 1"
    by (simp add: borrowed_value)
  show "fst (borrow_book (lit ''B1'') (lit '' R1 '') 739677 14 borrowed) = Inr 1"
    by (simp add: both_borrowed_value)
qed (simp_all add: both_returned_def both_returned_value)

text \<open>
  C6. On a manager built by public calls, once \<open>return_book\<close> has succeeded for a pair,
  \<open>return_book\<close> for the same pair raises \<open>BusinessRuleError\<close> after any calls among which
  none is a \<open>borrow_book\<close> for that pair; and the loan it returned was active and keeps
  its return date through any later calls whatever.
\<close>

theorem return_book_twice:
  assumes reach: "m = run F (fresh fpd) ops0"
    and ok: "fst (return_book F b r d m) = Inr res"
    and nb: "\<forall>x \<in> set ops. \<not> borrows_pair b r x"
  shows "fst (return_book F b r d' (run F (snd (return_book F b r d m)) ops))
           = Inl BusinessRuleError \<and>
         (\<exists>la. map_of (active_loans m) (strip b, strip r) = Some la \<and>
            is_active (loan_objects m ! la) \<and>
            returned_date (loan_objects (run F (snd (return_book F b r d m)) ops') ! la)
              = Some d)"
proof -
  have wf: "wf m" unfolding reach by (rule wf_reachable)
  define m1 where "m1 = snd (return_book F b r d m)"
  have wf1: "wf m1" unfolding m1_def by (rule wf_return_book [OF wf])
  from ok have ne: "strip b \<noteq> []" "strip r \<noteq> []"
    by (auto simp: return_book_wf_cases [OF wf] split: if_splits)
  from ok obtain la where la: "map_of (active_loans m) (strip b, strip r) = Some la"
    by (auto simp: return_book_wf_cases [OF wf] split: if_splits option.splits)
  then have mem: "((strip b, strip r), la) \<in> set (active_loans m)"
    using wf_loan_lookup [OF wf] by simp
  have lt: "la < length (loan_objects m)" by (rule wf_loan_lt [OF wf mem])
  obtain ba where ba: "map_of (books m) (strip b) = Some ba"
    using wf_loan_book [OF wf mem] by auto
  have m1: "m1 = m\<lparr>loan_objects := (loan_objects m)
                 [la := (loan_objects m ! la)\<lparr>returned_date := Some d\<rparr>],
               book_objects := (book_objects m)
                 [ba := (book_objects m ! ba)
                    \<lparr>available_copies := available_copies (book_objects m ! ba) + 1\<rparr>],
               active_loans := AList.delete (strip b, strip r) (active_loans m)\<rparr>"
    using ne la ba by (simp add: m1_def return_book_wf_cases [OF wf])
  have gone: "map_of (active_loans m1) (strip b, strip r) = None"
    by (simp add: m1 delete_conv)
  have "map_of (active_loans (run F m1 ops)) (strip b, strip r) = None"
    by (rule key_absent_run [OF wf1 gone nb])
  then have first: "fst (return_book F b r d' (run F m1 ops)) = Inl BusinessRuleError"
    using ne by (simp add: return_book_cases)
  have lt1: "la < length (loan_objects m1)" using lt by (simp add: m1)
  have ret1: "returned_date (loan_objects m1 ! la) = Some d" using lt by (simp add: m1)
  have "returned_date (loan_objects (run F m1 ops') ! la) = Some d"
    using returned_stays_run [OF wf1 lt1 ret1] by simp
  moreover have "is_active (loan_objects m ! la)"
    using wf_loan_active [OF wf mem] by (simp add: is_active_def)
  ultimately show ?thesis using first la unfolding m1_def by blast
qed

text \<open>
  The theorem on the manager \<open>borrowed\<close>: the loan of \<open>("B1", "R1")\<close> is returned, another
  book is borrowed, and the second return fails; the loan object keeps its return date when
  the same pair borrows again.
\<close>

theorem return_book_twice_witness:
  "fst (return_book py (lit ''B1'') (lit ''R1'') 739700 borrowed)
     = Inr \<lparr>overdue_days = 10, fine_amount = Fin 100\<rparr> \<and>
   \<not> borrows_pair (lit ''B1'') (lit ''R1'') (BorrowBook (lit ''B2'') (lit ''R1'') 739700 7) \<and>
   fst (return_book py (lit ''B1'') (lit ''R1'') 739701
         (run py (snd (return_book py (lit ''B1'') (lit ''R1'') 739700 borrowed))
            [BorrowBook (lit ''B2'') (lit ''R1'') 739700 7])) = Inl BusinessRuleError \<and>
   map_of (active_loans borrowed) (strip (lit ''B1''), strip (lit ''R1'')) = Some 0 \<and>
   returned_date (loan_objects
       (run py (snd (return_book py (lit ''B1'') (lit ''R1'') 739700 borrowed))
          [BorrowBook (lit ''B1'') (lit ''R1'') 739702 14]) ! 0) = Some 739700"
proof -
  have ok: "fst (return_book py (lit ''B1'') (lit ''R1'') 739700 borrowed)
     = Inr \<lparr>overdue_days = 10, fine_amount = Fin 100\<rparr>"
    by (simp add: return_borrowed_value)
  have nb: "\<forall>x \<in> set [BorrowBook (lit ''B2'') (lit ''R1'') 739700 7]. \<not> borrows_pair (lit ''B1'') (lit ''R1'') x"
    by (simp add: strip_values)
  have key: "map_of (active_loans borrowed) (strip (lit ''B1''), strip (lit ''R1'')) = Some 0"
    by (simp add: borrowed_value strip_values)
  from return_book_twice [OF borrowed_def ok nb, of 739701 "[BorrowBook (lit ''B1'') (lit ''R1'') 739702 14]"]
  show ?thesis using ok nb key by auto
qed

text \<open>
  C7, as the code has it. \<open>calculate_fine\<close> leaves the manager as it was and returns
  \<open>round(max(0, days from due_date to return_date) * fine_per_day, 2)\<close>. With the float
  operations of Python: at a finite rate \<open>calculate_fine(2026-04-10, 2026-04-10)\<close> is
  \<open>0.0\<close>, and at the rate \<open>10.0\<close> \<open>calculate_fine(2026-04-10, 2026-04-13)\<close> is
  \<open>30.0\<close>. On a manager built by public calls, a successful \<open>return_book\<close> returns the
  overdue days and the fine that \<open>calculate_fine\<close> gives for the due date of the loan.
\<close>

theorem calculate_fine_formula:
  "calculate_fine F due rdate m =
     (Inr (flt_round2 F (flt_mul F (max (days_between rdate due) 0) (fine_per_day m))), m) \<and>
   (fine_per_day mp = Fin q \<longrightarrow> fst (calculate_fine py d d mp) = Inr (Fin 0)) \<and>
   (fine_per_day mp = Fin 10 \<longrightarrow> fst (calculate_fine py 739716 739719 mp) = Inr (Fin 30)) \<and>
   (mr = run F (fresh fpd) ops \<and> fst (return_book F b r rd mr) = Inr res \<longrightarrow>
      (\<exists>la. map_of (active_loans mr) (strip b, strip r) = Some la \<and>
         overdue_days res = max (days_between rd (due_date (loan_objects mr ! la))) 0 \<and>
         Inr (fine_amount res)
           = fst (calculate_fine F (due_date (loan_objects mr ! la)) rd mr)))"
proof (intro conjI impI)
  show "calculate_fine F due rdate m =
     (Inr (flt_round2 F (flt_mul F (max (days_between rdate due) 0) (fine_per_day m))), m)"
    by (simp add: calculate_fine_def Let_def)
next
  assume "fine_per_day mp = Fin q"
  then show "fst (calculate_fine py d d mp) = Inr (Fin 0)"
    by (simp add: calculate_fine_def days_between_def py_fines)
next
  assume "fine_per_day mp = Fin 10"
  then show "fst (calculate_fine py 739716 739719 mp) = Inr (Fin 30)"
    by (simp add: calculate_fine_def days_between_def py_fines)
next
  assume a: "mr = run F (fresh fpd) ops \<and> fst (return_book F b r rd mr) = Inr res"
  then have "wf mr" by (simp add: wf_reachable)
  from return_book_fine [OF this] a
  show "\<exists>la. map_of (active_loans mr) (strip b, strip r) = Some la \<and>
         overdue_days res = max (days_between rd (due_date (loan_objects mr ! la))) 0 \<and>
         Inr (fine_amount res)
           = fst (calculate_fine F (due_date (loan_objects mr ! la)) rd mr)"
    by blast
qed

text \<open>
  The theorem on the managers of the test suite, whose rate is \<open>10.0\<close>: the two fines of the
  claim, and the return of a loan ten days after its due date.
\<close>

theorem calculate_fine_formula_witness:
  "fine_per_day setUp = Fin 10 \<and>
   fst (calculate_fine py 739716 739716 setUp) = Inr (Fin 0) \<and>
   fst (calculate_fine py 739716 739719 setUp) = Inr (Fin 30) \<and>
   fst (return_book py (lit ''B1'') (lit ''R1'') 739700 borrowed)
     = Inr \<lparr>overdue_days = 10, fine_amount = Fin 100\<rparr> \<and>
   map_of (active_loans borrowed) (strip (lit ''B1''), strip (lit ''R1'')) = Some 0 \<and>
   due_date (loan_objects borrowed ! 0) = 739690 \<and>
   fst (calculate_fine py 739690 739700 borrowed) = Inr (Fin 100)"
proof -
  have rate: "fine_per_day setUp = Fin 10" by (simp add: setUp_value)
  have ok: "fst (return_book py (lit ''B1'') (lit ''R1'') 739700 borrowed)
     = Inr \<lparr>overdue_days = 10, fine_amount = Fin 100\<rparr>"
    by (simp add: return_borrowed_value)
  have key: "map_of (active_loans borrowed) (strip (lit ''B1''), strip (lit ''R1'')) = Some 0"
    by (simp add: borrowed_value strip_values)
  have due: "due_date (loan_objects borrowed ! 0) = 739690"
    by (simp add: borrowed_value)
  note inst = calculate_fine_formula [where mp = setUp and q = 10 and d = 739716 and F = py
      and mr = borrowed and fpd = "Fin 10"
      and ops = "setUp_ops @ [BorrowBook (lit ''B1'') (lit ''R1'') 739676 14]"
      and b = "lit ''B1''" and r = "lit ''R1''" and rd = 739700
      and res = "\<lparr>overdue_days = 10, fine_amount = Fin 100\<rparr>"]
  from inst rate have f0: "fst (calculate_fine py 739716 739716 setUp) = Inr (Fin 0)"
    by blast
  from inst rate have f3: "fst (calculate_fine py 739716 739719 setUp) = Inr (Fin 30)"
    by blast
  from inst borrowed_def ok
  obtain la where la: "map_of (active_loans borrowed) (strip (lit ''B1''), strip (lit ''R1''))
        = Some la"
    and fine: "Inr (fine_amount \<lparr>overdue_days = 10, fine_amount = Fin 100\<rparr>)
           = fst (calculate_fine py (due_date (loan_objects borrowed ! la)) 739700 borrowed)"
    by blast
  from la key have "la = 0" by simp
  with fine due have "fst (calculate_fine py 739690 739700 borrowed) = Inr (Fin 100)"
    by simp
  with rate f0 f3 ok key due show ?thesis by simp
qed

text \<open>
  C7 as stated fails at the rates \<open>inf\<close> and \<open>nan\<close>, which the constructor accepts since
  neither is below zero: \<open>calculate_fine(2026-04-10, 2026-04-10)\<close> is then \<open>nan\<close>, not
  \<open>0.0\<close>.
\<close>

theorem calculate_fine_formula_counterexample:
  "init py PInf = Inr (fresh PInf) \<and>
   fst (calculate_fine py 739716 739716 (fresh PInf)) = Inr NaN \<and>
   init py NaN = Inr (fresh NaN) \<and>
   fst (calculate_fine py 739716 739716 (fresh NaN)) = Inr NaN \<and>
   NaN \<noteq> Fin 0"
  by (simp add: init_fresh calculate_fine_def days_between_def py_fine_not_finite fresh_def)
    (simp add: py_def)






text \<open>
  C10. For every book stored in the manager, the available copies and the active loans of
  that book add up to \<open>total_copies\<close>, after any sequence of public calls on a fresh
  manager.
\<close>

theorem copies_conservation:
  "\<forall>bk \<in> set (stored_books (run F (fresh fpd) ops)).
     available_copies bk
       + int (length (active_loans_of_book (run F (fresh fpd) ops) (Book.book_id bk)))
     = total_copies bk"
proof
  fix bk
  let ?m = "run F (fresh fpd) ops"
  assume "bk \<in> set (stored_books ?m)"
  then obtain e where e: "e \<in> set (books ?m)" and bk: "bk = book_objects ?m ! snd e"
    by (auto simp: stored_books_def)
  have wf: "wf ?m" by (rule wf_reachable)
  from e have mem: "(fst e, snd e) \<in> set (books ?m)" by simp
  have "length (active_loans_of_book ?m (Book.book_id bk)) = loans_of (fst e) (active_loans ?m)"
    using loans_of_by_object [OF wf, of "fst e"] wf_book_id [OF wf mem] by (simp add: bk)
  with wf_count [OF wf mem] show
    "available_copies bk + int (length (active_loans_of_book ?m (Book.book_id bk)))
       = total_copies bk"
    by (simp add: bk)
qed

text \<open>
  The theorem on the manager \<open>borrowed\<close>: book \<open>B1\<close> has one available copy, one active
  loan and two copies in all.
\<close>

theorem copies_conservation_witness:
  "\<lparr>Book.book_id = lit ''B1'', title = lit ''Clean Code'', author = lit ''Robert Martin'',
     total_copies = 2, available_copies = 1\<rparr> \<in> set (stored_books borrowed) \<and>
   length (active_loans_of_book borrowed (lit ''B1'')) = 1 \<and>
   (1::int) + int (length (active_loans_of_book borrowed (lit ''B1''))) = 2"
proof -
  let ?bk = "\<lparr>Book.book_id = lit ''B1'', title = lit ''Clean Code'', author = lit ''Robert Martin'',
     total_copies = 2, available_copies = 1\<rparr>"
  have mem: "?bk \<in> set (stored_books borrowed)"
    by (simp add: borrowed_value stored_books_def)
  then have mem': "?bk \<in> set (stored_books (run py (fresh (Fin 10))
                (setUp_ops @ [BorrowBook (lit ''B1'') (lit ''R1'') 739676 14])))"
    by (simp add: borrowed_def)
  have n: "length (active_loans_of_book borrowed (lit ''B1'')) = 1"
    by (simp add: borrowed_value active_loans_of_book_def active_loan_objects_def)
  from bspec [OF copies_conservation mem'] mem n show ?thesis
    by (simp add: borrowed_def)
qed

end
